theory Spec2Isabelle
  imports Complex_Main "HOL-Library.Log_Nat" "HOL-Library.Multiset"
begin

section \<open>Python values\<close>

text \<open>
  A Python \<open>str\<close> is a sequence of Unicode code points, and \<open>len\<close> counts code points;
  the generator uses three characters beyond ASCII (the two bar glyphs and a dash), so a
  string is a list of code points here. \<open>asc\<close> embeds an ASCII literal.
\<close>

type_synonym pystr = "nat list"

definition asc :: "string \<Rightarrow> pystr" where
  "asc s = map of_char s"

definition NL :: pystr where
  "NL = [10]"

text \<open>\<open>sep.join(xs)\<close>\<close>

fun join :: "pystr \<Rightarrow> pystr list \<Rightarrow> pystr" where
  "join sep [] = []"
| "join sep [x] = x"
| "join sep (x # y # ys) = x @ sep @ join sep (y # ys)"

text \<open>\<open>s * n\<close> on a string: a count below one gives the empty string.\<close>

definition str_mul :: "pystr \<Rightarrow> int \<Rightarrow> pystr" where
  "str_mul s n = concat (replicate (nat n) s)"

text \<open>\<open>str(n)\<close> for a natural number: its decimal digits.\<close>

fun str_nat :: "nat \<Rightarrow> pystr" where
  "str_nat n = (if n < 10 then [48 + n] else str_nat (n div 10) @ [48 + n mod 10])"

declare str_nat.simps [simp del]

text \<open>The exceptions the generator can meet.\<close>

datatype error =
  ZeroDivisionError | OverflowError | AttributeError | TypeError | RequestException

text \<open>
  A configuration value or a leaf of a decoded API payload: \<open>None\<close> (YAML and JSON
  \<open>null\<close>), a boolean, an integer or a string. \<open>truthy\<close> is Python's truth test on it,
  \<open>py_str\<close> what an f-string puts in its place, \<open>strip\<close> the method \<open>.strip()\<close>, which
  only a string has.
\<close>

datatype pyval = PNone | PBool bool | PInt int | PStr pystr

fun truthy :: "pyval \<Rightarrow> bool" where
  "truthy PNone = False"
| "truthy (PBool b) = b"
| "truthy (PInt n) = (n \<noteq> 0)"
| "truthy (PStr s) = (s \<noteq> [])"

fun py_str :: "pyval \<Rightarrow> pystr" where
  "py_str PNone = asc ''None''"
| "py_str (PBool b) = (if b then asc ''True'' else asc ''False'')"
| "py_str (PInt n) = (if n < 0 then asc ''-'' else []) @ str_nat (nat \<bar>n\<bar>)"
| "py_str (PStr s) = s"

text \<open>
  The characters \<open>str.isspace\<close> accepts, which \<open>str.strip()\<close> removes: tab to carriage
  return, the four separators 28 to 31 and the space; U+0085 and U+00A0; U+1680; U+2000
  to U+200A; U+2028, U+2029, U+202F, U+205F and U+3000.
\<close>

definition isspace :: "nat \<Rightarrow> bool" where
  "isspace c =
     ((9 \<le> c \<and> c \<le> 13) \<or> (28 \<le> c \<and> c \<le> 32) \<or> c = 133 \<or> c = 160 \<or> c = 5760 \<or>
      (8192 \<le> c \<and> c \<le> 8202) \<or> c = 8232 \<or> c = 8233 \<or> c = 8239 \<or> c = 8287 \<or>
      c = 12288)"

definition str_strip :: "pystr \<Rightarrow> pystr" where
  "str_strip s = rev (dropWhile isspace (rev (dropWhile isspace s)))"

fun strip :: "pyval \<Rightarrow> error + pystr" where
  "strip (PStr s) = Inr (str_strip s)"
| "strip v = Inl AttributeError"

text \<open>
  A \<open>dict\<close> with string keys, as a map; \<open>dict_get d k dflt\<close> is \<open>d.get(k, dflt)\<close>: the
  default stands in for an absent key only, a key that is present with the value \<open>None\<close>
  gives \<open>None\<close>.
\<close>

type_synonym config = "pystr \<rightharpoonup> pyval"

definition dict_get :: "config \<Rightarrow> pystr \<Rightarrow> pyval \<Rightarrow> pyval" where
  "dict_get d k dflt = (case d k of None \<Rightarrow> dflt | Some v \<Rightarrow> v)"

section \<open>Floating point\<close>

text \<open>
  Python's \<open>float\<close> is IEEE 754 binary64. A float is modelled by the rational number it
  denotes, and every operation rounds the exact result to the nearest number with a
  53-bit significand, ties to even (\<open>fl\<close>). \<open>fl\<close> itself has no bound on the exponent;
  a result of magnitude \<open>2 ^ 1024\<close> or more is beyond the largest float, and the two
  operations of the generator that can produce one test for it: the division of two
  \<open>int\<close>s raises \<open>OverflowError\<close>, and the product \<open>(b / total_bytes) * 100\<close> is \<open>inf\<close>, on
  which \<open>round\<close> raises \<open>OverflowError\<close>. Subnormal numbers (a quotient below \<open>2 ^ -1022\<close>)
  and the sign of zero are not modelled.
\<close>

definition round_half_even :: "rat \<Rightarrow> int" where
  "round_half_even x =
     (let f = \<lfloor>x\<rfloor>; d = x - of_int f
      in if d < 1 / 2 then f else if 1 / 2 < d then f + 1 else if even f then f else f + 1)"

text \<open>For \<open>0 < x\<close>, the exponent \<open>e\<close> with \<open>2 ^ e \<le> x < 2 ^ (e + 1)\<close>.\<close>

definition ilog2 :: "rat \<Rightarrow> int" where
  "ilog2 x = (if 1 \<le> x then bitlen \<lfloor>x\<rfloor> - 1 else - bitlen (\<lceil>1 / x\<rceil> - 1))"

text \<open>The spacing of the floats around \<open>x\<close>: the unit in the last of 53 bits.\<close>

definition ulp :: "rat \<Rightarrow> rat" where
  "ulp x = 2 powi (ilog2 \<bar>x\<bar> - 52)"

definition fl :: "rat \<Rightarrow> rat" where
  "fl x = (if x = 0 then 0 else of_int (round_half_even (x / ulp x)) * ulp x)"

text \<open>
  \<open>a / b\<close> on two \<open>int\<close>s: the correctly rounded quotient; \<open>ZeroDivisionError\<close> when \<open>b\<close> is
  0, \<open>OverflowError\<close> when the rounded quotient is too large for a float.
\<close>

definition py_truediv :: "int \<Rightarrow> int \<Rightarrow> error + rat" where
  "py_truediv a b =
     (if b = 0 then Inl ZeroDivisionError
      else let q = fl (of_int a / of_int b)
           in if 2 ^ 1024 \<le> \<bar>q\<bar> then Inl OverflowError else Inr q)"

text \<open>\<open>round(x)\<close> on a finite float rounds the number the float denotes, ties to even.\<close>

definition py_round :: "rat \<Rightarrow> int" where
  "py_round x = round_half_even x"

text \<open>
  \<open>f"{x:.1f}"\<close>: the float's exact value rounded to one decimal, ties to even, with a
  minus sign for a negative number.
\<close>

definition tenths :: "rat \<Rightarrow> nat" where
  "tenths x = nat (round_half_even (\<bar>x\<bar> * 10))"

definition format_1f :: "rat \<Rightarrow> pystr" where
  "format_1f x =
     (if x < 0 then asc ''-'' else []) @
       str_nat (tenths x div 10) @ asc ''.'' @ str_nat (tenths x mod 10)"

section \<open>The percentage and bar renderer\<close>

definition FILLED :: pystr where
  "FILLED = [9608]"

definition EMPTY :: pystr where
  "EMPTY = [9617]"

text \<open>
  \<^verbatim>\<open>
  def progress_bar(percent, length=20):
      filled = int(round(percent / 100 * length))
      empty = length - filled
      return FILLED * filled + EMPTY * empty
  \<close>
\<close>

definition bar_filled :: "rat \<Rightarrow> int \<Rightarrow> int" where
  "bar_filled percent len = py_round (fl (fl (percent / 100) * of_int len))"

definition progress_bar :: "rat \<Rightarrow> int \<Rightarrow> pystr" where
  "progress_bar percent len =
     (let filled = bar_filled percent len;
          empty = len - filled
      in str_mul FILLED filled @ str_mul EMPTY empty)"

text \<open>
  The language totals are a \<open>dict\<close> from language name to byte count. Python's \<open>dict\<close>
  keeps insertion order and the renderer iterates it, so it is the list of its items, in
  insertion order, with distinct keys. \<open>dict_set d k v\<close> is \<open>d[k] = v\<close>.
\<close>

type_synonym totals = "(pystr \<times> int) list"

fun dict_set :: "totals \<Rightarrow> pystr \<Rightarrow> int \<Rightarrow> totals" where
  "dict_set [] k v = [(k, v)]"
| "dict_set ((k', v') # d) k v =
     (if k' = k then (k', v) # d else (k', v') # dict_set d k v)"

definition OrderedDict :: "(pystr \<times> int) list \<Rightarrow> totals" where
  "OrderedDict pairs = foldl (\<lambda>d (k, v). dict_set d k v) [] pairs"

text \<open>
  \<open>sorted(items, key=lambda kv: kv[1], reverse=True)\<close>. CPython sorts with
  \<open>reverse=True\<close> by reversing the list, sorting it stably in ascending order of the key,
  and reversing the result.
\<close>

definition sorted_reverse :: "(pystr \<times> int) list \<Rightarrow> (pystr \<times> int) list" where
  "sorted_reverse items = rev (sort_key snd (rev items))"

text \<open>
  \<^verbatim>\<open>
      pct = (b / total_bytes) * 100
      pct_str = f"{pct:.1f}%"
      bar = progress_bar(pct, length=20)
      lines.append(f"| {lang} | {pct_str} | {bar} |")
  \<close>
\<close>

definition percent :: "int \<Rightarrow> int \<Rightarrow> error + rat" where
  "percent b total_bytes =
     (case py_truediv b total_bytes of Inl e \<Rightarrow> Inl e | Inr q \<Rightarrow> Inr (fl (q * 100)))"

definition pct_str :: "rat \<Rightarrow> pystr" where
  "pct_str pct = format_1f pct @ asc ''%''"

definition table_row :: "pystr \<Rightarrow> pystr \<Rightarrow> pystr \<Rightarrow> pystr" where
  "table_row lang ps bar = asc ''| '' @ lang @ asc '' | '' @ ps @ asc '' | '' @ bar @ asc '' |''"

text \<open>
  When the product is beyond the largest float, \<open>pct\<close> is \<open>inf\<close>: formatting it raises
  nothing, and \<open>round\<close> in \<open>progress_bar\<close> raises \<open>OverflowError\<close>, so the row does.
  \<open>progress_bar\<close> is given finite percentages only.
\<close>

definition language_row :: "int \<Rightarrow> pystr \<times> int \<Rightarrow> error + pystr" where
  "language_row total_bytes kv =
     (case percent (snd kv) total_bytes of
        Inl e \<Rightarrow> Inl e
      | Inr pct \<Rightarrow>
          if 2 ^ 1024 \<le> \<bar>pct\<bar> then Inl OverflowError
          else Inr (table_row (fst kv) (pct_str pct) (progress_bar pct 20)))"

fun language_rows :: "int \<Rightarrow> (pystr \<times> int) list \<Rightarrow> error + pystr list" where
  "language_rows total_bytes [] = Inr []"
| "language_rows total_bytes (kv # kvs) =
     (case language_row total_bytes kv of
        Inl e \<Rightarrow> Inl e
      | Inr l \<Rightarrow>
          (case language_rows total_bytes kvs of
             Inl e \<Rightarrow> Inl e
           | Inr ls \<Rightarrow> Inr (l # ls)))"

definition NO_DATA :: pystr where
  "NO_DATA = asc ''No language data available.'' @ NL"

definition table_head :: "pystr list" where
  "table_head = [asc ''| Language | % | Progress |'', asc ''|---:|:---:|:---|'']"

text \<open>
  \<^verbatim>\<open>
  def build_language_section(lang_totals):
      total_bytes = sum(lang_totals.values())
      if total_bytes == 0:
          return "No language data available.\n"
      ordered = OrderedDict(sorted(lang_totals.items(), key=lambda kv: kv[1], reverse=True))
      lines = [header, rule]
      for lang, b in ordered.items(): ...
      return "\n".join(lines) + "\n"
  \<close>
\<close>

definition build_language_section :: "totals \<Rightarrow> error + pystr" where
  "build_language_section lang_totals =
     (let total_bytes = sum_list (map snd lang_totals)
      in if total_bytes = 0 then Inr NO_DATA
         else (case language_rows total_bytes (OrderedDict (sorted_reverse lang_totals)) of
                 Inl e \<Rightarrow> Inl e
               | Inr rows \<Rightarrow> Inr (join NL (table_head @ rows) @ NL)))"

text \<open>
  The value of \<open>pct\<close> in a row when \<open>total_bytes\<close> is not 0, and the number a reader takes
  from the rendered text \<open>f"{pct:.1f}%"\<close>: the digits before the point, and the digits
  after it as a decimal fraction.
\<close>

definition pct_value :: "int \<Rightarrow> int \<Rightarrow> rat" where
  "pct_value b total_bytes = fl (fl (of_int b / of_int total_bytes) * 100)"

definition is_digit :: "nat \<Rightarrow> bool" where
  "is_digit c = (48 \<le> c \<and> c \<le> 57)"

definition parse_nat :: "pystr \<Rightarrow> nat" where
  "parse_nat s = foldl (\<lambda>a c. 10 * a + (c - 48)) 0 s"

definition read_pct :: "pystr \<Rightarrow> rat" where
  "read_pct s =
     (let ip = takeWhile is_digit s;
          fp = takeWhile is_digit (drop (length ip + 1) s)
      in of_nat (parse_nat ip) + of_nat (parse_nat fp) / 10 ^ length fp)"

section \<open>The remote service\<close>

text \<open>
  \<open>gh_get\<close> sends one request and returns the decoded body, or raises (a timeout, a
  status that is not a success). The service is a parameter: for each endpoint a function
  from the URL to the decoded body or the exception. The bodies are typed by what the
  generator reads from them: a language breakdown is a \<open>dict\<close> from language name to byte
  count; an event gives \<open>ev.get("type")\<close>, the \<open>dict\<close> \<open>ev.get("repo", {})\<close> and the list
  \<open>ev.get("payload", {}).get("commits", [])\<close>, whose entries are \<open>dict\<close>s. A repository
  record is a \<open>dict\<close>.
\<close>

record event =
  ev_type :: pyval
  ev_repo :: config
  ev_commits :: "config list"

record github =
  languages_of :: "pystr \<Rightarrow> error + totals"
  events_of :: "pystr \<Rightarrow> error + event list"

text \<open>A URL that is not a string has no scheme: \<open>requests.get\<close> raises.\<close>

definition gh_get_languages :: "github \<Rightarrow> pyval \<Rightarrow> error + totals" where
  "gh_get_languages api url =
     (case url of PStr u \<Rightarrow> languages_of api u | _ \<Rightarrow> Inl RequestException)"

section \<open>The language aggregator\<close>

text \<open>\<open>totals[lang] += bytes_count\<close> on a \<open>defaultdict(int)\<close>.\<close>

definition dict_lookup :: "totals \<Rightarrow> pystr \<Rightarrow> int" where
  "dict_lookup t k = (case map_of t k of None \<Rightarrow> 0 | Some v \<Rightarrow> v)"

definition totals_add :: "totals \<Rightarrow> pystr \<times> int \<Rightarrow> totals" where
  "totals_add t kv = dict_set t (fst kv) (dict_lookup t (fst kv) + snd kv)"

text \<open>
  \<^verbatim>\<open>
  def fetch_languages_for_repos(repos, token=None):
      totals = defaultdict(int)
      for r in repos:
          if r.get("fork"):
              continue
          lang_url = r.get("languages_url")
          if not lang_url:
              continue
          try:
              data = gh_get(lang_url, token=token)
          except Exception:
              continue
          for lang, bytes_count in data.items():
              totals[lang] += bytes_count
      return totals
  \<close>
\<close>

fun languages_loop :: "github \<Rightarrow> totals \<Rightarrow> config list \<Rightarrow> totals" where
  "languages_loop api t [] = t"
| "languages_loop api t (r # rs) =
     (if truthy (dict_get r (asc ''fork'') PNone) then languages_loop api t rs
      else
        (let lang_url = dict_get r (asc ''languages_url'') PNone
         in if \<not> truthy lang_url then languages_loop api t rs
            else
              (case gh_get_languages api lang_url of
                 Inl e \<Rightarrow> languages_loop api t rs
               | Inr data \<Rightarrow> languages_loop api (foldl totals_add t data) rs)))"

definition fetch_languages_for_repos :: "github \<Rightarrow> config list \<Rightarrow> totals" where
  "fetch_languages_for_repos api repos = languages_loop api [] repos"

text \<open>
  What a repository adds to the totals: nothing when it is a fork, has no languages URL
  or its fetch fails, its language breakdown otherwise.
\<close>

definition contribution :: "github \<Rightarrow> config \<Rightarrow> totals" where
  "contribution api r =
     (if truthy (dict_get r (asc ''fork'') PNone) then []
      else if \<not> truthy (dict_get r (asc ''languages_url'') PNone) then []
      else (case gh_get_languages api (dict_get r (asc ''languages_url'') PNone) of
              Inl e \<Rightarrow> []
            | Inr data \<Rightarrow> data))"

definition bytes_of :: "totals \<Rightarrow> pystr \<Rightarrow> int" where
  "bytes_of data lang = sum_list (map snd (filter (\<lambda>kv. fst kv = lang) data))"

section \<open>The recent-activity fetcher\<close>

record commit_ref =
  cr_repo :: pyval
  cr_message :: pyval
  cr_url :: pystr

text \<open>
  \<^verbatim>\<open>
              sha = c.get("sha")
              msg = c.get("message")
              url = f"https://github.com/{repo_name}/commit/{sha}" if sha and repo_name else ""
              commits.append({"repo": repo_name, "message": msg, "url": url})
  \<close>
\<close>

definition commit_of :: "pyval \<Rightarrow> config \<Rightarrow> commit_ref" where
  "commit_of repo_name c =
     (let sha = dict_get c (asc ''sha'') PNone;
          msg = dict_get c (asc ''message'') PNone;
          url = (if truthy sha \<and> truthy repo_name
                 then asc ''https://github.com/'' @ py_str repo_name @ asc ''/commit/'' @ py_str sha
                 else [])
      in \<lparr>cr_repo = repo_name, cr_message = msg, cr_url = url\<rparr>)"

text \<open>
  The inner loop over one event's commits: the list so far with the new references, and
  whether the \<open>return\<close> inside the loop was taken. The test on the limit comes after the
  \<open>append\<close>.
\<close>

fun scan_commits ::
  "pyval \<Rightarrow> config list \<Rightarrow> commit_ref list \<Rightarrow> int \<Rightarrow> commit_ref list \<times> bool" where
  "scan_commits repo_name [] commits limit = (commits, False)"
| "scan_commits repo_name (c # cs) commits limit =
     (let commits' = commits @ [commit_of repo_name c]
      in if limit \<le> int (length commits') then (commits', True)
         else scan_commits repo_name cs commits' limit)"

definition is_push :: "event \<Rightarrow> bool" where
  "is_push ev = (ev_type ev = PStr (asc ''PushEvent''))"

fun scan_events :: "event list \<Rightarrow> commit_ref list \<Rightarrow> int \<Rightarrow> commit_ref list" where
  "scan_events [] commits limit = commits"
| "scan_events (ev # evs) commits limit =
     (if \<not> is_push ev then scan_events evs commits limit
      else
        (let repo_name = dict_get (ev_repo ev) (asc ''name'') PNone
         in case scan_commits repo_name (ev_commits ev) commits limit of
              (commits', True) \<Rightarrow> commits'
            | (commits', False) \<Rightarrow> scan_events evs commits' limit))"

definition events_url :: "pystr \<Rightarrow> pystr" where
  "events_url username = asc ''https://api.github.com/users/'' @ username @ asc ''/events/public''"

text \<open>
  \<^verbatim>\<open>
  def fetch_recent_commits(username, token=None, limit=5):
      url = f"https://api.github.com/users/{username}/events/public"
      try:
          events = gh_get(url, token=token)
      except Exception:
          return []
      commits = []
      for ev in events: ...
      return commits
  \<close>
\<close>

definition fetch_recent_commits :: "github \<Rightarrow> pystr \<Rightarrow> int \<Rightarrow> commit_ref list" where
  "fetch_recent_commits api username limit =
     (case events_of api (events_url username) of
        Inl e \<Rightarrow> []
      | Inr events \<Rightarrow> scan_events events [] limit)"

text \<open>All the references the push events of a feed hold, in feed order.\<close>

definition push_commits :: "event list \<Rightarrow> commit_ref list" where
  "push_commits events =
     concat (map (\<lambda>ev. map (commit_of (dict_get (ev_repo ev) (asc ''name'') PNone)) (ev_commits ev))
       (filter is_push events))"

section \<open>The document builder\<close>

definition EM_DASH :: pystr where
  "EM_DASH = [8212]"

text \<open>\<open>label.replace(" ", "%20")\<close> and the badge URL of \<open>make_shield_link\<close>.\<close>

definition make_shield_link :: "pystr \<Rightarrow> pystr \<Rightarrow> pystr \<Rightarrow> pystr" where
  "make_shield_link label color logo =
     (let label_enc = concat (map (\<lambda>c. if c = 32 then asc ''%20'' else [c]) label)
      in asc ''https://img.shields.io/badge/'' @ label_enc @ asc ''-'' @ color @
           asc ''?style=for-the-badge&logo='' @ logo @ asc ''&logoColor=white'')"

definition title_lines :: "config \<Rightarrow> pystr list" where
  "title_lines cfg =
     (let display_name = dict_get cfg (asc ''display_name'') (dict_get cfg (asc ''github_username'') PNone)
      in [asc ''# '' @ py_str display_name @ NL])"

definition image_lines :: "config \<Rightarrow> pystr list" where
  \<open>image_lines cfg =
     (let gif_url = dict_get cfg (asc ''gif_url'') PNone
      in if truthy gif_url
         then [asc ''<p align="center">'',
               asc ''  <img src="'' @ py_str gif_url @ asc ''" alt="Animated coder" width="320"/>'',
               asc ''</p>'' @ NL]
         else [])\<close>

text \<open>
  The bio is appended to \<open>lines\<close> as it is; the final \<open>join\<close> raises \<open>TypeError\<close> on an item
  that is not a string.
\<close>

definition bio_lines :: "config \<Rightarrow> error + pystr list" where
  "bio_lines cfg =
     (let bio_code = dict_get cfg (asc ''bio_code'') (PStr [])
      in if truthy bio_code
         then (case bio_code of
                 PStr s \<Rightarrow> Inr [asc ''```cpp'', s, asc ''```'' @ NL]
               | _ \<Rightarrow> Inl TypeError)
         else Inr [])"

definition cards_of :: "config \<Rightarrow> config \<Rightarrow> pystr list" where
  "cards_of cfg stats_img_urls =
     (let stats_card = dict_get stats_img_urls (asc ''stats'') PNone;
          top_langs_card = dict_get stats_img_urls (asc ''top_langs'') PNone;
          visitor_badge = dict_get cfg (asc ''visitor_badge_url'') PNone
      in (if truthy stats_card then [asc ''![GitHub stats]('' @ py_str stats_card @ asc '')''] else []) @
         (if truthy top_langs_card
          then [asc ''![Top languages]('' @ py_str top_langs_card @ asc '')''] else []) @
         (if truthy visitor_badge
          then [asc ''[![Visitors]('' @ py_str visitor_badge @ asc '')](https://github.com/'' @
                  py_str (dict_get cfg (asc ''github_username'') PNone) @ asc '')'']
          else []))"

definition badge_lines :: "config \<Rightarrow> config \<Rightarrow> pystr \<Rightarrow> pystr list" where
  "badge_lines cfg stats_img_urls linkedin =
     (let cards = cards_of cfg stats_img_urls
      in (if linkedin \<noteq> []
          then [asc ''[![LinkedIn]('' @
                  make_shield_link (asc ''LinkedIn'') (asc ''blue'') (asc ''linkedin'') @
                  asc '')]('' @ linkedin @ asc '')  '']
          else []) @
         (if cards \<noteq> [] then [join (asc ''  '' @ NL) cards @ NL] else []))"

definition language_lines :: "pystr \<Rightarrow> pystr list" where
  "language_lines lang_section_md = [asc ''## Languages'' @ NL, lang_section_md]"

definition NO_COMMITS :: pystr where
  "NO_COMMITS =
     asc ''_No public commits found yet '' @ EM_DASH @ asc '' start committing!_'' @ NL"

definition commit_line :: "commit_ref \<Rightarrow> pystr" where
  "commit_line c =
     (if cr_url c \<noteq> []
      then asc ''- ['' @ py_str (cr_message c) @ asc '']('' @ cr_url c @ asc '') '' @ EM_DASH @
             asc '' _'' @ py_str (cr_repo c) @ asc ''_''
      else asc ''- '' @ py_str (cr_message c) @ asc '' '' @ EM_DASH @
             asc '' _'' @ py_str (cr_repo c) @ asc ''_'')"

definition activity_lines :: "commit_ref list \<Rightarrow> pystr list" where
  "activity_lines recent_commits =
     [asc ''## Recent activity'' @ NL] @
     (if recent_commits = [] then [NO_COMMITS] else map commit_line recent_commits @ [[]])"

definition footer_lines :: "pystr \<Rightarrow> pystr list" where
  "footer_lines last_updated =
     [asc ''_Last updated: '' @ last_updated @ asc '' UTC_'' @ NL,
      asc ''---'',
      asc ''This README is generated automatically. Updates occur daily and whenever this repository receives a push.'']"

text \<open>
  \<open>build_readme(cfg, stats_img_urls, lang_section_md, recent_commits, last_updated)\<close>.
  The first statement that can raise is \<open>cfg.get("linkedin_url", "").strip()\<close>, at the top
  of the function.
\<close>

definition build_readme ::
  "config \<Rightarrow> config \<Rightarrow> pystr \<Rightarrow> commit_ref list \<Rightarrow> pystr \<Rightarrow> error + pystr" where
  "build_readme cfg stats_img_urls lang_section_md recent_commits last_updated =
     (case strip (dict_get cfg (asc ''linkedin_url'') (PStr [])) of
        Inl e \<Rightarrow> Inl e
      | Inr linkedin \<Rightarrow>
          (case bio_lines cfg of
             Inl e \<Rightarrow> Inl e
           | Inr bio \<Rightarrow>
               Inr (join NL
                 (title_lines cfg @ image_lines cfg @ bio @
                  badge_lines cfg stats_img_urls linkedin @
                  language_lines lang_section_md @
                  activity_lines recent_commits @
                  footer_lines last_updated))))"

text \<open>
  The \<open>cfg\<close> that \<open>main\<close> hands to \<open>build_readme\<close>: every key is present, and an option the
  user's configuration does not set has the value \<open>None\<close>.
  \<^verbatim>\<open>
        cfg={
            "github_username": username,
            "display_name": cfg.get("display_name"),
            "bio_code": cfg.get("bio_code"),
            "linkedin_url": cfg.get("linkedin_url"),
            "visitor_badge_url": visitor_badge,
            "gif_url": gif_url
        },
  \<close>
\<close>

definition readme_cfg :: "config \<Rightarrow> pystr \<Rightarrow> pystr \<Rightarrow> pystr \<Rightarrow> config" where
  "readme_cfg cfg username visitor_badge gif_url =
     [asc ''github_username'' \<mapsto> PStr username,
      asc ''display_name'' \<mapsto> dict_get cfg (asc ''display_name'') PNone,
      asc ''bio_code'' \<mapsto> dict_get cfg (asc ''bio_code'') PNone,
      asc ''linkedin_url'' \<mapsto> dict_get cfg (asc ''linkedin_url'') PNone,
      asc ''visitor_badge_url'' \<mapsto> PStr visitor_badge,
      asc ''gif_url'' \<mapsto> PStr gif_url]"

section \<open>The image URL resolver\<close>

text \<open>
  \<open>os.path.join(ROOT, p)\<close> on POSIX, \<open>gif_path.replace("\\", "/")\<close>, and the file system
  as a predicate on paths (\<open>os.path.exists\<close>). \<open>ROOT\<close> is a parameter.
\<close>

definition path_join :: "pystr \<Rightarrow> pystr \<Rightarrow> pystr" where
  "path_join a p =
     (if p \<noteq> [] \<and> hd p = 47 then p
      else if a = [] \<or> last a = 47 then a @ p
      else a @ asc ''/'' @ p)"

definition slashes :: "pystr \<Rightarrow> pystr" where
  "slashes s = map (\<lambda>c. if c = 92 then 47 else c) s"

text \<open>
  \<^verbatim>\<open>
  def find_gif_url(cfg, username):
      external = cfg.get("external_gif_url", "").strip()
      gif_path = cfg.get("gif_path", "").strip()
      branch = cfg.get("branch_name", "Main").strip() or "Main"
      if external:
          return external
      if not gif_path:
          return ""
      local_path = os.path.join(ROOT, gif_path)
      if os.path.exists(local_path):
          return gif_path.replace("\\", "/")
      raw_url = f"https://raw.githubusercontent.com/{username}/{username}/{branch}/{gif_path}"
      return raw_url
  \<close>
\<close>

definition find_gif_url ::
  "pystr \<Rightarrow> (pystr \<Rightarrow> bool) \<Rightarrow> config \<Rightarrow> pystr \<Rightarrow> error + pystr" where
  "find_gif_url ROOT exists cfg username =
     (case strip (dict_get cfg (asc ''external_gif_url'') (PStr [])) of
        Inl e \<Rightarrow> Inl e
      | Inr external \<Rightarrow>
     (case strip (dict_get cfg (asc ''gif_path'') (PStr [])) of
        Inl e \<Rightarrow> Inl e
      | Inr gif_path \<Rightarrow>
     (case strip (dict_get cfg (asc ''branch_name'') (PStr (asc ''Main''))) of
        Inl e \<Rightarrow> Inl e
      | Inr b \<Rightarrow>
          (let branch = (if b \<noteq> [] then b else asc ''Main'')
           in if external \<noteq> [] then Inr external
              else if gif_path = [] then Inr []
              else if exists (path_join ROOT gif_path) then Inr (slashes gif_path)
              else Inr (asc ''https://raw.githubusercontent.com/'' @ username @ asc ''/'' @
                          username @ asc ''/'' @ branch @ asc ''/'' @ gif_path)))))"

section \<open>Example inputs\<close>

text \<open>A feed of one push event that holds one commit.\<close>

definition feed_one :: github where
  "feed_one =
     \<lparr>languages_of = (\<lambda>u. Inl RequestException),
      events_of = (\<lambda>u. Inr
        [\<lparr>ev_type = PStr (asc ''PushEvent''),
          ev_repo = [asc ''name'' \<mapsto> PStr (asc ''o/r'')],
          ev_commits =
            [[asc ''sha'' \<mapsto> PStr (asc ''abc''), asc ''message'' \<mapsto> PStr (asc ''fix'')]]\<rparr>])\<rparr>"

text \<open>
  A feed of three push events with two commits each, and an event of another kind
  between the first two.
\<close>

definition push_of :: "pystr \<Rightarrow> pystr \<Rightarrow> pystr \<Rightarrow> event" where
  "push_of name sha1 sha2 =
     \<lparr>ev_type = PStr (asc ''PushEvent''),
      ev_repo = [asc ''name'' \<mapsto> PStr name],
      ev_commits =
        [[asc ''sha'' \<mapsto> PStr sha1, asc ''message'' \<mapsto> PStr (asc ''m'' @ sha1)],
         [asc ''sha'' \<mapsto> PStr sha2, asc ''message'' \<mapsto> PStr (asc ''m'' @ sha2)]]\<rparr>"

definition feed_three :: github where
  "feed_three =
     \<lparr>languages_of = (\<lambda>u. Inl RequestException),
      events_of = (\<lambda>u. Inr
        [push_of (asc ''o/a'') (asc ''1'') (asc ''2''),
         \<lparr>ev_type = PStr (asc ''WatchEvent''), ev_repo = Map.empty, ev_commits = []\<rparr>,
         push_of (asc ''o/b'') (asc ''3'') (asc ''4''),
         push_of (asc ''o/c'') (asc ''5'') (asc ''6'')])\<rparr>"

text \<open>
  A service that knows the languages of two repositories and fails on any other URL, and
  records of a fork, of a repository of the user's own, of one whose languages cannot be
  fetched, and of one without a languages URL.
\<close>

definition two_repos :: github where
  "two_repos =
     \<lparr>languages_of = (\<lambda>u.
        if u = asc ''L/fork'' then Inr [(asc ''C'', 500)]
        else if u = asc ''L/own'' then Inr [(asc ''Python'', 300), (asc ''C'', 20)]
        else Inl RequestException),
      events_of = (\<lambda>u. Inl RequestException)\<rparr>"

definition fork_repo :: config where
  "fork_repo = [asc ''fork'' \<mapsto> PBool True, asc ''languages_url'' \<mapsto> PStr (asc ''L/fork'')]"

definition own_repo :: config where
  "own_repo = [asc ''fork'' \<mapsto> PBool False, asc ''languages_url'' \<mapsto> PStr (asc ''L/own'')]"

definition bad_repo :: config where
  "bad_repo = [asc ''fork'' \<mapsto> PBool False, asc ''languages_url'' \<mapsto> PStr (asc ''L/gone'')]"

definition bare_repo :: config where
  "bare_repo = [asc ''fork'' \<mapsto> PBool False, asc ''languages_url'' \<mapsto> PStr []]"

text \<open>
  A user's configuration that sets no LinkedIn URL, and one that sets it; a configuration
  whose external image URL has a space on each side; one whose external image URL is a
  single no-break space (U+00A0); one with a padded image path that uses a backslash and
  a blank branch name.
\<close>

definition plain_cfg :: config where
  "plain_cfg = [asc ''github_username'' \<mapsto> PStr (asc ''octo'')]"

definition linked_cfg :: config where
  "linked_cfg =
     [asc ''github_username'' \<mapsto> PStr (asc ''octo''),
      asc ''linkedin_url'' \<mapsto> PStr (asc ''https://l.in/octo'')]"

definition padded_cfg :: config where
  "padded_cfg = [asc ''external_gif_url'' \<mapsto> PStr (asc '' http://e.x/a.gif '')]"

definition nbsp_cfg :: config where
  "nbsp_cfg =
     [asc ''external_gif_url'' \<mapsto> PStr [160],
      asc ''gif_path'' \<mapsto> PStr (asc ''a.gif'')]"

definition path_cfg :: config where
  "path_cfg =
     [asc ''gif_path'' \<mapsto> PStr (asc '' img'' @ [92] @ asc ''a.gif ''),
      asc ''branch_name'' \<mapsto> PStr (asc '' '')]"

text \<open>
  Language totals: the two languages of the spec's fixture; three languages of which two
  have the same byte count; thirty languages of one byte each, named by the letters from
  \<open>A\<close> on.
\<close>

definition fixture :: totals where
  "fixture = [(asc ''B'', 25), (asc ''A'', 75)]"

definition tied :: totals where
  "tied = [(asc ''Go'', 25), (asc ''C'', 50), (asc ''Ada'', 25)]"

definition thirty :: totals where
  "thirty = map (\<lambda>i. ([65 + i], 1)) [0..<30]"

section \<open>The renderer without data\<close>

text \<open>
  C6. When the byte counts sum to 0, and so for the empty mapping, the renderer returns
  exactly the sentinel \<open>No language data available.\<close> with a newline after it; it does
  not reach the division, so it raises no \<open>ZeroDivisionError\<close>.
\<close>

theorem build_language_section_no_data:
  "sum_list (map snd lang_totals) = 0 \<Longrightarrow>
     build_language_section lang_totals = Inr (asc ''No language data available.'' @ [10])"
  by (simp add: build_language_section_def NO_DATA_def NL_def)

theorem build_language_section_no_data_witness:
  "sum_list (map snd ([] :: totals)) = 0 \<and>
   build_language_section [] = Inr (asc ''No language data available.'' @ [10]) \<and>
   sum_list (map snd [(asc ''C'', 7 :: int), (asc ''Go'', - 7)]) = 0 \<and>
   build_language_section [(asc ''C'', 7), (asc ''Go'', - 7)]
     = Inr (asc ''No language data available.'' @ [10])"
  using build_language_section_no_data [of "[]"]
    build_language_section_no_data [of "[(asc ''C'', 7), (asc ''Go'', - 7)]"]
  by simp


section \<open>Rounding to the nearest float\<close>

lemma rhe_cases:
  "round_half_even x = \<lfloor>x\<rfloor> \<or> round_half_even x = \<lfloor>x\<rfloor> + 1"
  by (simp add: round_half_even_def Let_def)

lemma rhe_error: "\<bar>of_int (round_half_even x) - x\<bar> \<le> 1 / 2"
proof -
  have "of_int \<lfloor>x\<rfloor> \<le> x" "x < of_int \<lfloor>x\<rfloor> + 1" by linarith+
  then show ?thesis
    by (auto simp: round_half_even_def Let_def)
qed

lemma rhe_of_int [simp]: "round_half_even (of_int n) = n"
  by (simp add: round_half_even_def)

lemma rhe_mono: assumes "x \<le> y" shows "round_half_even x \<le> round_half_even y"
proof (cases "\<lfloor>x\<rfloor> = \<lfloor>y\<rfloor>")
  case True
  with assms show ?thesis
    by (auto simp: round_half_even_def Let_def)
next
  case False
  with assms have "\<lfloor>x\<rfloor> + 1 \<le> \<lfloor>y\<rfloor>"
    using floor_mono [OF assms] by linarith
  moreover have "round_half_even x \<le> \<lfloor>x\<rfloor> + 1" using rhe_cases [of x] by auto
  moreover have "\<lfloor>y\<rfloor> \<le> round_half_even y" using rhe_cases [of y] by auto
  ultimately show ?thesis by linarith
qed

lemma pow2_nat: "0 \<le> k \<Longrightarrow> (2::rat) powi k = of_int (2 ^ nat k)"
  by (simp add: power_int_def)

lemma ilog2_ge1:
  assumes "1 \<le> (x::rat)"
  shows "2 powi (bitlen \<lfloor>x\<rfloor> - 1) \<le> x" and "x < 2 powi (bitlen \<lfloor>x\<rfloor> - 1 + 1)"
proof -
  from assms have p: "0 < \<lfloor>x\<rfloor>" by simp
  have b1: "2 ^ nat (bitlen \<lfloor>x\<rfloor> - 1) \<le> \<lfloor>x\<rfloor>" and b2: "\<lfloor>x\<rfloor> < 2 ^ nat (bitlen \<lfloor>x\<rfloor>)"
    using bitlen_bounds [OF p] by auto
  have n: "0 \<le> bitlen \<lfloor>x\<rfloor> - 1" using p by (simp add: bitlen_alt_def)
  have "(of_int (2 ^ nat (bitlen \<lfloor>x\<rfloor> - 1)) :: rat) \<le> of_int \<lfloor>x\<rfloor>"
    using b1 by (rule iffD2 [OF of_int_le_iff])
  also have "\<dots> \<le> x" by linarith
  finally show "2 powi (bitlen \<lfloor>x\<rfloor> - 1) \<le> x"
    by (simp only: pow2_nat [OF n])
  have "\<lfloor>x\<rfloor> + 1 \<le> 2 ^ nat (bitlen \<lfloor>x\<rfloor>)" using b2 by linarith
  then have "(of_int (\<lfloor>x\<rfloor> + 1) :: rat) \<le> of_int (2 ^ nat (bitlen \<lfloor>x\<rfloor>))"
    by (rule iffD2 [OF of_int_le_iff])
  moreover have "x < of_int (\<lfloor>x\<rfloor> + 1)" by linarith
  ultimately have "x < of_int (2 ^ nat (bitlen \<lfloor>x\<rfloor>))" by linarith
  moreover have "0 \<le> bitlen \<lfloor>x\<rfloor>" by (rule bitlen_nonneg)
  ultimately show "x < 2 powi (bitlen \<lfloor>x\<rfloor> - 1 + 1)"
    by (simp only: pow2_nat diff_add_cancel)
qed


lemma ilog2_lt1:
  assumes "0 < (x::rat)" "x < 1"
  shows "2 powi (- bitlen (\<lceil>1 / x\<rceil> - 1)) \<le> x"
    and "x < 2 powi (- bitlen (\<lceil>1 / x\<rceil> - 1) + 1)"
proof -
  define c where "c = \<lceil>1 / x\<rceil> - 1"
  define k where "k = bitlen c"
  from assms have y1: "1 < 1 / x" by simp
  then have "2 \<le> \<lceil>1 / x\<rceil>" by linarith
  then have p: "0 < c" by (simp add: c_def)
  have b1: "2 ^ nat (k - 1) \<le> c" and b2: "c < 2 ^ nat k"
    using bitlen_bounds [OF p] by (auto simp: k_def)
  have k1: "1 \<le> k" using p by (simp add: k_def bitlen_alt_def)
  have up: "1 / x \<le> of_int (c + 1)" unfolding c_def by simp
  have lo: "of_int c < 1 / x" unfolding c_def by linarith
  have "c + 1 \<le> 2 ^ nat k" using b2 by linarith
  then have "(of_int (c + 1) :: rat) \<le> of_int (2 ^ nat k)"
    by (rule iffD2 [OF of_int_le_iff])
  with up have "1 / x \<le> of_int (2 ^ nat k)" by linarith
  moreover have "(2::rat) powi k = of_int (2 ^ nat k)" using k1 by (intro pow2_nat) simp
  ultimately have "1 / x \<le> 2 powi k" by (simp only:)
  then have "1 / (2 powi k) \<le> x"
    using assms(1) by (simp add: field_simps)
  then show "2 powi (- bitlen (\<lceil>1 / x\<rceil> - 1)) \<le> x"
    by (simp add: power_int_minus k_def c_def inverse_eq_divide)
  have "(of_int (2 ^ nat (k - 1)) :: rat) \<le> of_int c"
    using b1 by (rule iffD2 [OF of_int_le_iff])
  with lo have "of_int (2 ^ nat (k - 1)) < 1 / x" by linarith
  moreover have "(2::rat) powi (k - 1) = of_int (2 ^ nat (k - 1))"
    using k1 by (intro pow2_nat) simp
  ultimately have "2 powi (k - 1) < 1 / x" by (simp only:)
  then have "x < 1 / (2 powi (k - 1))"
    using assms(1) by (simp add: field_simps)
  also have "1 / ((2::rat) powi (k - 1)) = 2 powi (- k + 1)"
    by (simp add: power_int_minus [symmetric] inverse_eq_divide [symmetric])
  finally show "x < 2 powi (- bitlen (\<lceil>1 / x\<rceil> - 1) + 1)"
    by (simp add: k_def c_def)
qed

lemma ilog2_bounds:
  assumes "0 < x"
  shows "2 powi ilog2 x \<le> x" and "x < 2 powi (ilog2 x + 1)"
  using ilog2_ge1 [of x] ilog2_lt1 [of x] assms
  by (auto simp: ilog2_def not_le)


lemma ilog2_mono:
  assumes "0 < x" "x \<le> y"
  shows "ilog2 x \<le> ilog2 y"
proof (rule ccontr)
  assume "\<not> ilog2 x \<le> ilog2 y"
  then have "ilog2 y + 1 \<le> ilog2 x" by simp
  then have "(2::rat) powi (ilog2 y + 1) \<le> 2 powi ilog2 x"
    by (intro power_int_increasing) simp_all
  moreover have "y < 2 powi (ilog2 y + 1)" using assms by (intro ilog2_bounds) simp
  moreover have "2 powi ilog2 x \<le> x" using assms by (intro ilog2_bounds)
  ultimately show False using assms by linarith
qed

lemma ulp_pos: "0 < ulp x"
  by (simp add: ulp_def)

lemma fl_ulp: "x \<noteq> 0 \<Longrightarrow> fl x = of_int (round_half_even (x / ulp x)) * ulp x"
  by (simp add: fl_def)

lemma ulp_scale:
  assumes "0 < x"
  shows "2 ^ 52 * ulp x \<le> x" and "x < 2 ^ 53 * ulp x"
proof -
  have "2 ^ 52 * ulp x = 2 powi (ilog2 x)"
    using assms by (simp add: ulp_def power_int_diff)
  then show "2 ^ 52 * ulp x \<le> x" using ilog2_bounds(1) [OF assms] by simp
  have "2 ^ 53 * ulp x = 2 powi (ilog2 x + 1)"
    using assms by (simp add: ulp_def power_int_diff power_int_add)
  then show "x < 2 ^ 53 * ulp x" using ilog2_bounds(2) [OF assms] by simp
qed

lemma rhe_ge_pow: "2 ^ k \<le> x \<Longrightarrow> (2::rat) ^ k \<le> of_int (round_half_even x)"
proof -
  assume "2 ^ k \<le> x"
  then have "of_int (2 ^ k) \<le> x" by simp
  from rhe_mono [OF this] have "2 ^ k \<le> round_half_even x" by (simp only: rhe_of_int)
  then have "(of_int (2 ^ k) :: rat) \<le> of_int (round_half_even x)"
    by (rule iffD2 [OF of_int_le_iff])
  then show ?thesis by simp
qed

lemma rhe_le_pow: "x \<le> 2 ^ k \<Longrightarrow> of_int (round_half_even x) \<le> (2::rat) ^ k"
proof -
  assume "x \<le> 2 ^ k"
  then have "x \<le> of_int (2 ^ k)" by simp
  from rhe_mono [OF this] have "round_half_even x \<le> 2 ^ k" by (simp only: rhe_of_int)
  then have "(of_int (round_half_even x) :: rat) \<le> of_int (2 ^ k)"
    by (rule iffD2 [OF of_int_le_iff])
  then show ?thesis by simp
qed

lemma fl_range:
  assumes "0 < x"
  shows "2 ^ 52 * ulp x \<le> fl x" and "fl x \<le> 2 ^ 53 * ulp x"
proof -
  have u: "0 < ulp x" by (rule ulp_pos)
  have nz: "x \<noteq> 0" using assms by simp
  have "2 ^ 52 \<le> x / ulp x"
    using ulp_scale(1) [OF assms] u by (simp only: pos_le_divide_eq)
  from rhe_ge_pow [OF this]
  have "2 ^ 52 * ulp x \<le> of_int (round_half_even (x / ulp x)) * ulp x"
    using u by (intro mult_right_mono) simp_all
  then show "2 ^ 52 * ulp x \<le> fl x" by (simp only: fl_ulp [OF nz])
  have "x / ulp x \<le> 2 ^ 53"
    using ulp_scale(2) [OF assms] u by (simp only: pos_divide_le_eq)
  from rhe_le_pow [OF this]
  have "of_int (round_half_even (x / ulp x)) * ulp x \<le> 2 ^ 53 * ulp x"
    using u by (intro mult_right_mono) simp_all
  then show "fl x \<le> 2 ^ 53 * ulp x" by (simp only: fl_ulp [OF nz])
qed

lemma fl_mono_pos:
  assumes "0 < x" "x \<le> y"
  shows "fl x \<le> fl y"
proof (cases "ilog2 x = ilog2 y")
  case True
  have y: "0 < y" using assms by linarith
  have uu: "ulp x = ulp y" using True assms y by (simp add: ulp_def)
  have "x / ulp y \<le> y / ulp y" using assms ulp_pos [of y] by (simp add: divide_right_mono)
  from rhe_mono [OF this]
  have "(of_int (round_half_even (x / ulp y)) :: rat) \<le> of_int (round_half_even (y / ulp y))"
    by (rule iffD2 [OF of_int_le_iff])
  then have "of_int (round_half_even (x / ulp y)) * ulp y
      \<le> of_int (round_half_even (y / ulp y)) * ulp y"
    using ulp_pos [of y] by (intro mult_right_mono) simp_all
  then show ?thesis using assms y uu by (simp add: fl_ulp)
next
  case False
  have y: "0 < y" using assms by linarith
  from False ilog2_mono [OF assms] have "ilog2 x + 1 \<le> ilog2 y" by simp
  then have "(2::rat) powi (ilog2 x + 1) \<le> 2 powi ilog2 y"
    by (intro power_int_increasing) simp_all
  moreover have "2 ^ 53 * ulp x = 2 powi (ilog2 x + 1)"
    using assms by (simp add: ulp_def power_int_diff power_int_add)
  moreover have "2 ^ 52 * ulp y = 2 powi (ilog2 y)"
    using y by (simp add: ulp_def power_int_diff)
  ultimately have "2 ^ 53 * ulp x \<le> 2 ^ 52 * ulp y" by simp
  with fl_range(2) [OF assms(1)] fl_range(1) [OF y] show ?thesis by linarith
qed

lemma fl_zero [simp]: "fl 0 = 0"
  by (simp add: fl_def)

lemma fl_nonneg: "0 \<le> x \<Longrightarrow> 0 \<le> fl x"
proof (cases "x = 0")
  case False
  assume "0 \<le> x"
  with False have p: "0 < x" by simp
  have "0 \<le> 2 ^ 52 * ulp x" using ulp_pos [of x] by simp
  with fl_range(1) [OF p] show ?thesis by linarith
qed simp

lemma fl_mono_nonneg: "0 \<le> x \<Longrightarrow> x \<le> y \<Longrightarrow> fl x \<le> fl y"
  using fl_mono_pos [of x y] fl_nonneg [of y] by (cases "x = 0") auto

lemma fl_error:
  assumes "0 < x"
  shows "\<bar>fl x - x\<bar> \<le> x / 2 ^ 53"
proof -
  have u: "0 < ulp x" by (rule ulp_pos)
  have "fl x - x = (of_int (round_half_even (x / ulp x)) - x / ulp x) * ulp x"
    using assms u by (simp add: fl_ulp field_simps)
  then have "\<bar>fl x - x\<bar> = \<bar>of_int (round_half_even (x / ulp x)) - x / ulp x\<bar> * ulp x"
    using u by (simp add: abs_mult)
  also have "\<dots> \<le> (1 / 2) * ulp x"
    using u rhe_error [of "x / ulp x"] by (intro mult_right_mono) simp_all
  also have "\<dots> \<le> x / 2 ^ 53"
    using ulp_scale(1) [OF assms] by simp
  finally show ?thesis .
qed

lemma fl_consts: "fl 1 = 1" "fl 100 = 100" "fl 20 = 20" "fl (3/4) = 3/4"
  by code_simp+

section \<open>The rows of the language table\<close>

lemma dict_set_fresh: "k \<notin> fst ` set d \<Longrightarrow> dict_set d k v = d @ [(k, v)]"
  by (induction d) auto

lemma foldl_dict_set_distinct:
  "distinct (map fst (d @ ps)) \<Longrightarrow> foldl (\<lambda>d (k, v). dict_set d k v) d ps = d @ ps"
proof (induction ps arbitrary: d)
  case Nil
  show ?case by simp
next
  case (Cons p ps)
  obtain k v where p: "p = (k, v)" by (cases p)
  from Cons.prems have fresh: "k \<notin> fst ` set d" by (auto simp: p)
  from Cons.prems have "distinct (map fst ((d @ [(k, v)]) @ ps))" by (simp add: p)
  from Cons.IH [OF this] show ?case by (simp add: p dict_set_fresh [OF fresh])
qed

lemma OrderedDict_distinct: "distinct (map fst ps) \<Longrightarrow> OrderedDict ps = ps"
  using foldl_dict_set_distinct [of "[]" ps] by (simp add: OrderedDict_def)

lemma mset_sorted_reverse: "mset (sorted_reverse m) = mset m"
  by (simp add: sorted_reverse_def)

lemma set_sorted_reverse: "set (sorted_reverse m) = set m"
  by (simp add: sorted_reverse_def)

lemma distinct_sorted_reverse:
  "distinct (map fst m) \<Longrightarrow> distinct (map fst (sorted_reverse m))"
  by (simp add: sorted_reverse_def distinct_map)

lemma sorted_reverse_descending: "sorted_wrt (\<lambda>a b. snd b \<le> snd a) (sorted_reverse m)"
proof -
  have "sorted (map snd (sort_key snd (rev m)))" by (rule sorted_sort_key)
  then have "sorted_wrt (\<lambda>a b. snd a \<le> snd b) (sort_key snd (rev m))"
    by (simp add: sorted_map)
  then show ?thesis
    by (simp add: sorted_reverse_def sorted_wrt_rev)
qed

lemma sorted_reverse_stable:
  "filter (\<lambda>kv. snd kv = n) (sorted_reverse m) = filter (\<lambda>kv. snd kv = n) m"
proof -
  have "filter (\<lambda>kv. snd kv = n) (sort_key snd (rev m)) = filter (\<lambda>kv. snd kv = n) (rev m)"
    by (rule sort_key_stable)
  then show ?thesis by (simp add: sorted_reverse_def rev_filter [symmetric])
qed

lemma fl_le_float:
  assumes "0 \<le> x" "x \<le> c" "fl c = c"
  shows "fl x \<le> c"
  using fl_mono_nonneg [OF assms(1,2)] assms(3) by simp

lemma pct_value_bounds:
  assumes "0 \<le> b" "b \<le> t" "0 < t"
  shows "0 \<le> pct_value b t" and "pct_value b t \<le> 100"
proof -
  define r :: rat where "r = of_int b / of_int t"
  have r: "0 \<le> r" "r \<le> 1" using assms by (simp_all add: r_def)
  have q: "0 \<le> fl r" "fl r \<le> 1"
    using fl_nonneg [OF r(1)] fl_le_float [OF r fl_consts(1)] by simp_all
  then have q100: "0 \<le> fl r * 100" "fl r * 100 \<le> 100" by simp_all
  show "0 \<le> pct_value b t" using fl_nonneg [OF q100(1)] by (simp add: pct_value_def r_def)
  show "pct_value b t \<le> 100"
    using fl_le_float [OF q100 fl_consts(2)] by (simp add: pct_value_def r_def)
qed

lemma rhe_le_int: "x \<le> of_int n \<Longrightarrow> round_half_even x \<le> n"
  using rhe_mono [of x "of_int n"] by (simp only: rhe_of_int)

lemma rhe_ge_int: "of_int n \<le> x \<Longrightarrow> n \<le> round_half_even x"
  using rhe_mono [of "of_int n" x] by (simp only: rhe_of_int)

lemma bar_filled_bounds:
  assumes "0 \<le> p" "p \<le> 100"
  shows "0 \<le> bar_filled p 20" and "bar_filled p 20 \<le> 20"
proof -
  have r: "0 \<le> p / 100" "p / 100 \<le> 1" using assms by simp_all
  have q: "0 \<le> fl (p / 100)" "fl (p / 100) \<le> 1"
    using fl_nonneg [OF r(1)] fl_le_float [OF r fl_consts(1)] by simp_all
  then have q20: "0 \<le> fl (p / 100) * 20" "fl (p / 100) * 20 \<le> 20" by simp_all
  have f: "of_int 0 \<le> fl (fl (p / 100) * 20)" "fl (fl (p / 100) * 20) \<le> of_int 20"
    using fl_nonneg [OF q20(1)] fl_le_float [OF q20 fl_consts(3)] by simp_all
  from rhe_ge_int [OF f(1)] show "0 \<le> bar_filled p 20"
    by (simp add: bar_filled_def py_round_def)
  from rhe_le_int [OF f(2)] show "bar_filled p 20 \<le> 20"
    by (simp add: bar_filled_def py_round_def)
qed

lemma concat_replicate_single: "concat (replicate n [c]) = replicate n c"
  by (induction n) simp_all

lemma progress_bar_shape:
  assumes "0 \<le> bar_filled p 20" "bar_filled p 20 \<le> 20"
  shows "progress_bar p 20 =
      replicate (nat (bar_filled p 20)) 9608 @ replicate (20 - nat (bar_filled p 20)) 9617"
    and "length (progress_bar p 20) = 20"
proof -
  have e: "nat (20 - bar_filled p 20) = 20 - nat (bar_filled p 20)" using assms by linarith
  show "progress_bar p 20 =
      replicate (nat (bar_filled p 20)) 9608 @ replicate (20 - nat (bar_filled p 20)) 9617"
    by (simp add: progress_bar_def Let_def str_mul_def FILLED_def EMPTY_def
        concat_replicate_single e)
  then show "length (progress_bar p 20) = 20" using assms by simp
qed

lemma member_le_sum_list_int:
  "\<forall>x\<in>set xs. (0::int) \<le> x \<Longrightarrow> x \<in> set xs \<Longrightarrow> x \<le> sum_list xs"
proof (induction xs)
  case Nil
  then show ?case by simp
next
  case (Cons a xs)
  have "0 \<le> sum_list xs" using Cons.prems(1) by (intro sum_list_nonneg) simp
  with Cons show ?case by auto
qed

lemma quotient_bounds:
  assumes "0 \<le> b" "b \<le> t" "0 < t"
  shows "0 \<le> fl (of_int b / of_int t)" and "fl (of_int b / of_int t) \<le> 1"
proof -
  have r: "0 \<le> (of_int b / of_int t :: rat)" "(of_int b / of_int t :: rat) \<le> 1"
    using assms by simp_all
  show "0 \<le> fl (of_int b / of_int t)" by (rule fl_nonneg [OF r(1)])
  show "fl (of_int b / of_int t) \<le> 1" by (rule fl_le_float [OF r fl_consts(1)])
qed

lemma below_largest_float:
  assumes "0 \<le> x" "x \<le> 100"
  shows "\<not> 2 ^ 1024 \<le> \<bar>x :: rat\<bar>"
proof -
  have "(2::rat) ^ 7 \<le> 2 ^ 1024" by (rule power_increasing) simp_all
  then have "(100::rat) < 2 ^ 1024" by simp
  with assms show ?thesis by simp
qed

lemma percent_value:
  assumes "0 \<le> b" "b \<le> t" "0 < t"
  shows "percent b t = Inr (pct_value b t)"
proof -
  have "fl (of_int b / of_int t) \<le> 100" using quotient_bounds(2) [OF assms] by simp
  from below_largest_float [OF quotient_bounds(1) [OF assms] this] assms(3)
  show ?thesis by (simp add: percent_def py_truediv_def pct_value_def Let_def)
qed

lemma language_row_value:
  assumes "0 \<le> snd kv" "snd kv \<le> t" "0 < t"
  shows "language_row t kv =
     Inr (table_row (fst kv) (pct_str (pct_value (snd kv) t)) (progress_bar (pct_value (snd kv) t) 20))"
  using below_largest_float [OF pct_value_bounds [OF assms]]
  by (simp add: language_row_def percent_value [OF assms])

lemma language_rows_value:
  assumes "0 < t" and "\<forall>kv\<in>set kvs. 0 \<le> snd kv \<and> snd kv \<le> t"
  shows "language_rows t kvs =
       Inr (map (\<lambda>kv. table_row (fst kv) (pct_str (pct_value (snd kv) t))
                  (progress_bar (pct_value (snd kv) t) 20)) kvs)"
  using assms(2)
proof (induction kvs)
  case Nil
  show ?case by simp
next
  case (Cons kv kvs)
  then have "0 \<le> snd kv" "snd kv \<le> t" by simp_all
  from language_row_value [OF this assms(1)] Cons show ?case by simp
qed

lemma build_language_section_rows:
  assumes "distinct (map fst lang_totals)"
    and "\<forall>kv\<in>set lang_totals. 0 \<le> snd kv"
    and "0 < sum_list (map snd lang_totals)"
  shows "build_language_section lang_totals =
     Inr (join NL (table_head @
       map (\<lambda>kv. table_row (fst kv) (pct_str (pct_value (snd kv) (sum_list (map snd lang_totals))))
              (progress_bar (pct_value (snd kv) (sum_list (map snd lang_totals))) 20))
         (sorted_reverse lang_totals)) @ NL)"
proof -
  have nn: "\<forall>x\<in>set (map snd lang_totals). 0 \<le> x" using assms(2) by simp
  have "\<forall>kv\<in>set (sorted_reverse lang_totals).
      0 \<le> snd kv \<and> snd kv \<le> sum_list (map snd lang_totals)"
  proof
    fix kv assume "kv \<in> set (sorted_reverse lang_totals)"
    then have kv: "kv \<in> set lang_totals" by (simp add: set_sorted_reverse)
    then have "snd kv \<in> set (map snd lang_totals)" by simp
    from member_le_sum_list_int [OF nn this] assms(2) kv
    show "0 \<le> snd kv \<and> snd kv \<le> sum_list (map snd lang_totals)" by simp
  qed
  from language_rows_value [OF assms(3) this] assms(1,3) show ?thesis
    by (simp add: build_language_section_def Let_def OrderedDict_distinct distinct_sorted_reverse)
qed

lemma str_nat_digits: "\<forall>c\<in>set (str_nat n). is_digit c"
proof (induction n rule: str_nat.induct)
  case (1 n)
  show ?case
  proof (cases "n < 10")
    case True
    then show ?thesis by (subst str_nat.simps) (simp add: is_digit_def)
  next
    case False
    have "n mod 10 < 10" by simp
    then have "is_digit (48 + n mod 10)" unfolding is_digit_def by linarith
    with False 1 show ?thesis by (subst str_nat.simps) simp
  qed
qed

lemma parse_nat_snoc: "parse_nat (xs @ [c]) = 10 * parse_nat xs + (c - 48)"
  by (simp add: parse_nat_def)

lemma parse_nat_str_nat: "parse_nat (str_nat n) = n"
proof (induction n rule: str_nat.induct)
  case (1 n)
  show ?case
  proof (cases "n < 10")
    case True
    then show ?thesis by (subst str_nat.simps) (simp add: parse_nat_def)
  next
    case False
    with 1 show ?thesis by (subst str_nat.simps) (simp add: parse_nat_snoc)
  qed
qed

lemma takeWhile_digits:
  assumes "\<forall>c\<in>set xs. is_digit c" "\<not> is_digit d"
  shows "takeWhile is_digit (xs @ d # ys) = xs"
  using assms by (simp add: takeWhile_append2)

lemma read_pct_pct_str:
  assumes "0 \<le> x"
  shows "read_pct (pct_str x) = of_nat (tenths x) / 10"
proof -
  define ip where "ip = str_nat (tenths x div 10)"
  define fp where "fp = str_nat (tenths x mod 10)"
  have s: "pct_str x = ip @ 46 # fp @ 37 # []"
    using assms by (simp add: pct_str_def format_1f_def asc_def ip_def fp_def)
  have nd: "\<not> is_digit 46" "\<not> is_digit 37" by (simp_all add: is_digit_def)
  have ipd: "\<forall>c\<in>set ip. is_digit c" and fpd: "\<forall>c\<in>set fp. is_digit c"
    unfolding ip_def fp_def by (rule str_nat_digits)+
  have t1: "takeWhile is_digit (pct_str x) = ip"
    unfolding s by (rule takeWhile_digits [OF ipd nd(1)])
  have t2: "takeWhile is_digit (drop (length ip + 1) (pct_str x)) = fp"
    unfolding s using takeWhile_digits [OF fpd nd(2), of "[]"] by simp
  have "tenths x mod 10 < 10" by simp
  then have l: "length fp = 1" unfolding fp_def by (subst str_nat.simps) simp
  have "read_pct (pct_str x) = of_nat (tenths x div 10) + of_nat (tenths x mod 10) / 10"
    unfolding read_pct_def Let_def t1 t2 l
    by (simp add: ip_def fp_def parse_nat_str_nat)
  also have "\<dots> = (10 * of_nat (tenths x div 10) + of_nat (tenths x mod 10)) / 10"
    by (simp add: add_divide_distrib)
  also have "10 * of_nat (tenths x div 10) + of_nat (tenths x mod 10)
      = (of_nat (10 * (tenths x div 10) + tenths x mod 10) :: rat)"
    by (simp only: of_nat_add of_nat_mult of_nat_numeral)
  also have "10 * (tenths x div 10) + tenths x mod 10 = tenths x" by simp
  finally show ?thesis .
qed

lemma tenths_error:
  assumes "0 \<le> x"
  shows "\<bar>of_nat (tenths x) / 10 - x\<bar> \<le> 1 / 20"
proof -
  have "of_int 0 \<le> x * 10" using assms by simp
  from rhe_ge_int [OF this] have nn: "0 \<le> round_half_even (x * 10)" .
  have "(of_nat (tenths x) :: rat) = of_int (round_half_even (x * 10))"
    using assms nn by (simp add: tenths_def)
  with rhe_error [of "x * 10"] show ?thesis by (simp add: field_simps abs_le_iff)
qed

lemma pct_value_error:
  assumes "0 \<le> b" "b \<le> t" "0 < t"
  shows "\<bar>pct_value b t - 100 * of_int b / of_int t\<bar> \<le> 1 / 2 ^ 45"
proof (cases "b = 0")
  case True
  then show ?thesis by (simp add: pct_value_def)
next
  case False
  define r :: rat where "r = of_int b / of_int t"
  have r: "0 < r" "r \<le> 1" using assms False by (simp_all add: r_def)
  have e1: "\<bar>fl r - r\<bar> \<le> 1 / 2 ^ 53"
  proof -
    have "\<bar>fl r - r\<bar> \<le> r / 2 ^ 53" by (rule fl_error [OF r(1)])
    also have "\<dots> \<le> 1 / 2 ^ 53" using r(2) by (simp add: divide_right_mono)
    finally show ?thesis .
  qed
  have q1: "fl r \<le> 1" using fl_le_float [OF _ r(2) fl_consts(1)] r(1) by simp
  have q0: "0 < fl r"
  proof -
    have "0 < 2 ^ 52 * ulp r" using ulp_pos [of r] by simp
    with fl_range(1) [OF r(1)] show ?thesis by linarith
  qed
  have e2: "\<bar>fl (fl r * 100) - fl r * 100\<bar> \<le> 100 / 2 ^ 53"
  proof -
    have p: "0 < fl r * 100" using q0 by simp
    have "\<bar>fl (fl r * 100) - fl r * 100\<bar> \<le> fl r * 100 / 2 ^ 53" by (rule fl_error [OF p])
    also have "\<dots> \<le> 100 / 2 ^ 53" using q1 by (simp add: divide_right_mono)
    finally show ?thesis .
  qed
  have "fl (fl r * 100) - 100 * r = (fl (fl r * 100) - fl r * 100) + 100 * (fl r - r)"
    by simp
  then have "\<bar>fl (fl r * 100) - 100 * r\<bar>
      \<le> \<bar>fl (fl r * 100) - fl r * 100\<bar> + \<bar>100 * (fl r - r)\<bar>"
    by (simp only: abs_triangle_ineq)
  also have "\<bar>100 * (fl r - r)\<bar> = 100 * \<bar>fl r - r\<bar>"
    using abs_mult [of 100 "fl r - r"] by simp
  finally have "\<bar>fl (fl r * 100) - 100 * r\<bar>
      \<le> \<bar>fl (fl r * 100) - fl r * 100\<bar> + 100 * \<bar>fl r - r\<bar>" .
  also have "\<dots> \<le> 100 / 2 ^ 53 + 100 * (1 / 2 ^ 53)"
    by (intro add_mono mult_left_mono e1 e2) simp
  also have "\<dots> \<le> 1 / 2 ^ 45" by simp
  finally show ?thesis by (simp add: pct_value_def r_def)
qed

lemma sum_list_diff_bound:
  fixes f g :: "'a \<Rightarrow> rat"
  assumes "\<forall>x\<in>set xs. \<bar>f x - g x\<bar> \<le> c"
  shows "\<bar>sum_list (map f xs) - sum_list (map g xs)\<bar> \<le> of_nat (length xs) * c"
  using assms
proof (induction xs)
  case Nil
  show ?case by simp
next
  case (Cons a xs)
  then have "\<bar>f a - g a\<bar> \<le> c" "\<bar>sum_list (map f xs) - sum_list (map g xs)\<bar> \<le> of_nat (length xs) * c"
    by simp_all
  then show ?case by (simp add: algebra_simps abs_le_iff) 
qed

lemma percentages_sum:
  fixes t :: rat
  shows "sum_list (map (\<lambda>kv. 100 * of_int (snd kv) / t) xs)
    = 100 * of_int (sum_list (map snd xs)) / t"
  by (induction xs) (simp_all add: add_divide_distrib distrib_left)

lemma exact_percentages_sum:
  assumes "sum_list (map snd m) \<noteq> (0::int)"
  shows "sum_list (map (\<lambda>kv. 100 * of_int (snd kv) / of_int (sum_list (map snd m))) m) = (100::rat)"
  unfolding percentages_sum using assms by simp

lemma sum_list_sorted_reverse:
  fixes f :: "pystr \<times> int \<Rightarrow> rat"
  shows "sum_list (map f (sorted_reverse m)) = sum_list (map f m)"
proof -
  have "mset (map f (sorted_reverse m)) = mset (map f m)" by (simp add: mset_sorted_reverse)
  then show ?thesis by (metis sum_mset_sum_list)
qed

section \<open>Rendered examples\<close>

lemma fl_quarters: "fl (rat_of_int 75 / rat_of_int 100) = 3 / 4" "fl (3 / 4 * 100) = 75"
  "fl (75 / 100) = 3 / 4" "fl (3 / 4 * rat_of_int 20) = 15"
  "fl (rat_of_int 25 / rat_of_int 100) = 1 / 4" "fl (1 / 4 * 100) = 25"
  "fl (25 / 100) = 1 / 4" "fl (1 / 4 * rat_of_int 20) = 5"
  by code_simp+

lemma pct_75: "pct_value 75 100 = 75" and pct_25: "pct_value 25 100 = 25"
  unfolding pct_value_def fl_quarters by (rule refl)+

lemma filled_75: "bar_filled 75 20 = 15" and filled_25: "bar_filled 25 20 = 5"
  unfolding bar_filled_def py_round_def fl_quarters by code_simp+

lemma tenths_75: "tenths 75 = 750" and tenths_25: "tenths 25 = 250"
  by code_simp+

lemma rendered_75: "pct_str (pct_value 75 100) = asc ''75.0%''"
  and rendered_25: "pct_str (pct_value 25 100) = asc ''25.0%''"
  unfolding pct_75 pct_25 pct_str_def format_1f_def tenths_75 tenths_25 by code_simp+

lemma bar_75: "progress_bar (pct_value 75 100) 20 = replicate 15 9608 @ replicate 5 9617"
  and bar_25: "progress_bar (pct_value 25 100) 20 = replicate 5 9608 @ replicate 15 9617"
  unfolding pct_75 pct_25
  by (simp_all add: progress_bar_def str_mul_def FILLED_def EMPTY_def filled_75 filled_25
      concat_replicate_single)

lemma fl_thirtieth:
  "fl (rat_of_int 1 / rat_of_int 30) = 4803839602528529 / 144115188075855872"
  "fl (4803839602528529 / 144115188075855872 * 100) = 7505999378950827 / 2251799813685248"
  by code_simp+

lemma pct_30: "pct_value 1 30 = 7505999378950827 / 2251799813685248"
  unfolding pct_value_def fl_thirtieth by (rule refl)

lemma tenths_30: "tenths (7505999378950827 / 2251799813685248) = 33"
  by code_simp

lemma rendered_30: "pct_str (pct_value 1 30) = asc ''3.3%''"
  unfolding pct_30 pct_str_def format_1f_def tenths_30 by code_simp

lemma read_33: "read_pct (asc ''3.3%'') = 33 / 10"
  and read_75: "read_pct (asc ''75.0%'') = 75"
  and read_25: "read_pct (asc ''25.0%'') = 25"
  by code_simp+

lemma fixture_facts:
  "distinct (map fst fixture)" "list_all (\<lambda>kv. 0 \<le> snd kv) fixture"
  "sum_list (map snd fixture) = 100"
  "sorted_reverse fixture = [(asc ''A'', 75), (asc ''B'', 25)]"
  by (simp_all add: fixture_def asc_def sorted_reverse_def)

lemma tied_facts:
  "distinct (map fst tied)" "sum_list (map snd tied) = 100"
  "sorted_reverse tied = [(asc ''C'', 50), (asc ''Go'', 25), (asc ''Ada'', 25)]"
  by (simp_all add: tied_def asc_def sorted_reverse_def)

lemma sorted_reverse_constant:
  assumes "\<forall>kv\<in>set m. snd kv = c"
  shows "sorted_reverse m = m"
proof -
  have "filter (\<lambda>kv. snd kv = c) (sorted_reverse m) = sorted_reverse m"
    using assms by (simp add: set_sorted_reverse)
  moreover have "filter (\<lambda>kv. snd kv = c) m = m" using assms by simp
  ultimately show ?thesis using sorted_reverse_stable [of c m] by simp
qed

lemma thirty_facts:
  "distinct (map fst thirty)" "sum_list (map snd thirty) = 30"
  "sorted_reverse thirty = thirty" "length thirty = 30"
proof -
  show "distinct (map fst thirty)"
    by (simp add: thirty_def distinct_map o_def inj_on_def)
  show "sum_list (map snd thirty) = 30"
    by (simp add: thirty_def o_def sum_list_triv)
  show "sorted_reverse thirty = thirty"
    by (rule sorted_reverse_constant [of _ 1]) (simp add: thirty_def)
  show "length thirty = 30" by (simp add: thirty_def)
qed

section \<open>The order of the rows\<close>

text \<open>
  C7. When the total is greater than 0 (the mapping a \<open>dict\<close> of language totals: its keys
  distinct, its byte counts not negative), the table has one row for each language, in
  the order of \<open>sorted_reverse\<close>: a rearrangement of the items in which the byte counts
  never increase from a row to the next, and in which the languages of any one byte count
  keep the order they have in the mapping.
\<close>

theorem language_rows_sorted_stable:
  assumes "distinct (map fst lang_totals)"
    and "\<forall>kv\<in>set lang_totals. 0 \<le> snd kv"
    and "0 < sum_list (map snd lang_totals)"
  shows "build_language_section lang_totals =
     Inr (join NL (table_head @
       map (\<lambda>kv. table_row (fst kv) (pct_str (pct_value (snd kv) (sum_list (map snd lang_totals))))
              (progress_bar (pct_value (snd kv) (sum_list (map snd lang_totals))) 20))
         (sorted_reverse lang_totals)) @ NL) \<and>
     mset (sorted_reverse lang_totals) = mset lang_totals \<and>
     sorted_wrt (\<lambda>a b. snd b \<le> snd a) (sorted_reverse lang_totals) \<and>
     (\<forall>n. filter (\<lambda>kv. snd kv = n) (sorted_reverse lang_totals)
            = filter (\<lambda>kv. snd kv = n) lang_totals)"
proof -
  from build_language_section_rows [OF assms] show ?thesis
    by (simp add: mset_sorted_reverse sorted_reverse_descending sorted_reverse_stable)
qed

theorem language_rows_sorted_stable_witness:
  "distinct (map fst tied) \<and> list_all (\<lambda>kv. 0 \<le> snd kv) tied \<and>
   0 < sum_list (map snd tied) \<and>
   sorted_reverse tied = [(asc ''C'', 50), (asc ''Go'', 25), (asc ''Ada'', 25)] \<and>
   build_language_section tied =
     Inr (join NL (table_head @
       map (\<lambda>kv. table_row (fst kv) (pct_str (pct_value (snd kv) 100))
              (progress_bar (pct_value (snd kv) 100) 20))
         [(asc ''C'', 50), (asc ''Go'', 25), (asc ''Ada'', 25)]) @ NL)"
proof -
  have p: "0 < sum_list (map snd tied)" by (simp add: tied_facts)
  have l: "list_all (\<lambda>kv. 0 \<le> snd kv) tied" by (simp add: tied_def)
  then have n: "\<forall>kv\<in>set tied. 0 \<le> snd kv" by (simp add: list_all_iff)
  from language_rows_sorted_stable [OF tied_facts(1) n p] tied_facts p l
  show ?thesis by (simp only: simp_thms)
qed

section \<open>The bars\<close>

text \<open>
  C5. When the byte counts are not negative and their total is greater than 0, the bar of
  every row is \<open>filled\<close> copies of the filled glyph (U+2588) followed by \<open>20 - filled\<close>
  copies of the empty glyph (U+2591), 20 glyphs in all, where \<open>filled\<close> is
  \<open>percent / 100 * 20\<close>, computed in floats, rounded to the nearest integer, a tie to the
  even one; it lies between 0 and 20.
\<close>

theorem language_bars_twenty_glyphs:
  assumes "distinct (map fst lang_totals)"
    and "\<forall>kv\<in>set lang_totals. 0 \<le> snd kv"
    and "0 < sum_list (map snd lang_totals)"
  shows "build_language_section lang_totals =
     Inr (join NL (table_head @
       map (\<lambda>kv. table_row (fst kv) (pct_str (pct_value (snd kv) (sum_list (map snd lang_totals))))
              (progress_bar (pct_value (snd kv) (sum_list (map snd lang_totals))) 20))
         (sorted_reverse lang_totals)) @ NL) \<and>
     (\<forall>kv\<in>set lang_totals.
        let pct = pct_value (snd kv) (sum_list (map snd lang_totals));
            filled = round_half_even (fl (fl (pct / 100) * 20))
        in 0 \<le> filled \<and> filled \<le> 20 \<and>
           progress_bar pct 20 = replicate (nat filled) 9608 @ replicate (20 - nat filled) 9617 \<and>
           length (progress_bar pct 20) = 20)"
proof (intro conjI ballI)
  from build_language_section_rows [OF assms]
  show "build_language_section lang_totals =
     Inr (join NL (table_head @
       map (\<lambda>kv. table_row (fst kv) (pct_str (pct_value (snd kv) (sum_list (map snd lang_totals))))
              (progress_bar (pct_value (snd kv) (sum_list (map snd lang_totals))) 20))
         (sorted_reverse lang_totals)) @ NL)" .
next
  fix kv assume kv: "kv \<in> set lang_totals"
  define pct where "pct = pct_value (snd kv) (sum_list (map snd lang_totals))"
  have b0: "0 \<le> snd kv" using assms(2) kv by simp
  have "snd kv \<in> set (map snd lang_totals)" using kv by simp
  moreover have "\<forall>x\<in>set (map snd lang_totals). 0 \<le> x" using assms(2) by simp
  ultimately have b1: "snd kv \<le> sum_list (map snd lang_totals)"
    by (intro member_le_sum_list_int)
  have p: "0 \<le> pct" "pct \<le> 100"
    unfolding pct_def using pct_value_bounds [OF b0 b1 assms(3)] by simp_all
  have f: "bar_filled pct 20 = round_half_even (fl (fl (pct / 100) * 20))"
    by (simp add: bar_filled_def py_round_def)
  from bar_filled_bounds [OF p] progress_bar_shape [OF bar_filled_bounds [OF p]]
  show "let pct = pct_value (snd kv) (sum_list (map snd lang_totals));
            filled = round_half_even (fl (fl (pct / 100) * 20))
        in 0 \<le> filled \<and> filled \<le> 20 \<and>
           progress_bar pct 20 = replicate (nat filled) 9608 @ replicate (20 - nat filled) 9617 \<and>
           length (progress_bar pct 20) = 20"
    unfolding Let_def pct_def [symmetric] f [symmetric] by simp
qed

theorem language_bars_twenty_glyphs_witness:
  "distinct (map fst fixture) \<and> list_all (\<lambda>kv. 0 \<le> snd kv) fixture \<and>
   0 < sum_list (map snd fixture) \<and>
   build_language_section fixture =
     Inr (join NL (table_head @
       [table_row (asc ''A'') (asc ''75.0%'') (replicate 15 9608 @ replicate 5 9617),
        table_row (asc ''B'') (asc ''25.0%'') (replicate 5 9608 @ replicate 15 9617)]) @ NL) \<and>
   length (progress_bar (pct_value 75 100) 20) = 20 \<and>
   length (progress_bar (pct_value 25 100) 20) = 20"
proof -
  have n: "\<forall>kv\<in>set fixture. 0 \<le> snd kv" using fixture_facts(2) by (simp add: list_all_iff)
  have p: "0 < sum_list (map snd fixture)" by (simp add: fixture_facts)
  note t = language_bars_twenty_glyphs [OF fixture_facts(1) n p]
  have b: "build_language_section fixture =
     Inr (join NL (table_head @
       [table_row (asc ''A'') (asc ''75.0%'') (replicate 15 9608 @ replicate 5 9617),
        table_row (asc ''B'') (asc ''25.0%'') (replicate 5 9608 @ replicate 15 9617)]) @ NL)"
    using t [THEN conjunct1]
    by (simp add: fixture_facts rendered_75 rendered_25 bar_75 bar_25)
  have "(asc ''A'', 75) \<in> set fixture" by (simp add: fixture_def)
  from t [THEN conjunct2, THEN bspec, OF this]
  have l75: "length (progress_bar (pct_value 75 100) 20) = 20"
    unfolding Let_def snd_conv fixture_facts(3) by blast
  have "(asc ''B'', 25) \<in> set fixture" by (simp add: fixture_def)
  from t [THEN conjunct2, THEN bspec, OF this]
  have l25: "length (progress_bar (pct_value 25 100) 20) = 20"
    unfolding Let_def snd_conv fixture_facts(3) by blast
  from fixture_facts(1,2) p b l75 l25 show ?thesis by (intro conjI)
qed

section \<open>The sum of the rendered percentages\<close>

text \<open>
  C2, against the claim as it is written: thirty languages of one byte each are rendered
  as \<open>3.3%\<close> each, and the thirty rendered percentages sum to 99.0, a whole point away
  from 100.0.
\<close>

theorem rendered_percentages_sum_not_100:
  "distinct (map fst thirty) \<and> list_all (\<lambda>kv. 0 \<le> snd kv) thirty \<and>
   sum_list (map snd thirty) = 30 \<and>
   build_language_section thirty =
     Inr (join NL (table_head @
       map (\<lambda>kv. table_row (fst kv) (asc ''3.3%'') (progress_bar (pct_value 1 30) 20)) thirty)
       @ NL) \<and>
   sum_list (map (\<lambda>kv. read_pct (pct_str (pct_value (snd kv) (sum_list (map snd thirty)))))
     (sorted_reverse thirty)) = 99 \<and>
   \<not> \<bar>(99 :: rat) - 100\<bar> \<le> 1 / 10"
proof -
  have one: "\<forall>kv\<in>set thirty. snd kv = 1" by (simp add: thirty_def)
  then have n: "list_all (\<lambda>kv. 0 \<le> snd kv) thirty" by (simp add: list_all_iff)
  have nn: "\<forall>kv\<in>set thirty. 0 \<le> snd kv" using one by simp
  have pos: "0 < sum_list (map snd thirty)" by (simp add: thirty_facts)
  have rows: "map (\<lambda>kv. table_row (fst kv) (pct_str (pct_value (snd kv) 30))
                  (progress_bar (pct_value (snd kv) 30) 20)) thirty
      = map (\<lambda>kv. table_row (fst kv) (asc ''3.3%'') (progress_bar (pct_value 1 30) 20)) thirty"
    using one by (intro map_cong refl) (simp add: rendered_30)
  have sum: "sum_list (map (\<lambda>kv. read_pct (pct_str (pct_value (snd kv) 30))) thirty) = 99"
  proof -
    have eq: "map (\<lambda>kv. read_pct (pct_str (pct_value (snd kv) 30))) thirty
        = map (\<lambda>kv. 33 / 10) thirty"
      using one by (intro map_cong refl) (simp add: rendered_30 read_33)
    show ?thesis unfolding eq by (simp add: sum_list_triv thirty_facts)
  qed
  from build_language_section_rows [OF thirty_facts(1) nn pos] rows sum n thirty_facts
  show ?thesis by simp
qed

text \<open>
  C2, amended. When the byte counts are not negative and their total is greater than 0,
  each rendered percentage is within 0.05 of the float percentage, which is within
  \<open>2 ^ -45\<close> of the exact one, and the exact percentages sum to 100: the sum of the
  rendered percentages differs from 100.0 by at most \<open>0.05 + 2 ^ -45\<close> for each row.
\<close>

theorem rendered_percentages_sum:
  assumes "distinct (map fst lang_totals)"
    and "\<forall>kv\<in>set lang_totals. 0 \<le> snd kv"
    and "0 < sum_list (map snd lang_totals)"
  shows "build_language_section lang_totals =
     Inr (join NL (table_head @
       map (\<lambda>kv. table_row (fst kv) (pct_str (pct_value (snd kv) (sum_list (map snd lang_totals))))
              (progress_bar (pct_value (snd kv) (sum_list (map snd lang_totals))) 20))
         (sorted_reverse lang_totals)) @ NL) \<and>
     \<bar>sum_list (map (\<lambda>kv. read_pct (pct_str (pct_value (snd kv) (sum_list (map snd lang_totals)))))
          (sorted_reverse lang_totals)) - 100\<bar>
       \<le> of_nat (length lang_totals) * (1 / 20 + 1 / 2 ^ 45)"
proof (intro conjI)
  define T where "T = sum_list (map snd lang_totals)"
  have T: "0 < T" "T \<noteq> 0" using assms(3) by (simp_all add: T_def)
  from build_language_section_rows [OF assms]
  show "build_language_section lang_totals =
     Inr (join NL (table_head @
       map (\<lambda>kv. table_row (fst kv) (pct_str (pct_value (snd kv) (sum_list (map snd lang_totals))))
              (progress_bar (pct_value (snd kv) (sum_list (map snd lang_totals))) 20))
         (sorted_reverse lang_totals)) @ NL)" .
  have each: "\<forall>kv\<in>set lang_totals.
      \<bar>read_pct (pct_str (pct_value (snd kv) T)) - 100 * of_int (snd kv) / of_int T\<bar>
        \<le> 1 / 20 + 1 / 2 ^ 45"
  proof
    fix kv assume kv: "kv \<in> set lang_totals"
    have b0: "0 \<le> snd kv" using assms(2) kv by simp
    have "snd kv \<in> set (map snd lang_totals)" using kv by simp
    moreover have "\<forall>x\<in>set (map snd lang_totals). 0 \<le> x" using assms(2) by simp
    ultimately have b1: "snd kv \<le> T" unfolding T_def by (intro member_le_sum_list_int)
    have p0: "0 \<le> pct_value (snd kv) T" by (rule pct_value_bounds(1) [OF b0 b1 T(1)])
    have "\<bar>read_pct (pct_str (pct_value (snd kv) T)) - pct_value (snd kv) T\<bar> \<le> 1 / 20"
      unfolding read_pct_pct_str [OF p0] by (rule tenths_error [OF p0])
    moreover have "\<bar>pct_value (snd kv) T - 100 * of_int (snd kv) / of_int T\<bar> \<le> 1 / 2 ^ 45"
      by (rule pct_value_error [OF b0 b1 T(1)])
    ultimately show "\<bar>read_pct (pct_str (pct_value (snd kv) T))
        - 100 * of_int (snd kv) / of_int T\<bar> \<le> 1 / 20 + 1 / 2 ^ 45"
      by linarith
  qed
  have "\<bar>sum_list (map (\<lambda>kv. read_pct (pct_str (pct_value (snd kv) T))) lang_totals)
        - sum_list (map (\<lambda>kv. 100 * of_int (snd kv) / of_int T) lang_totals)\<bar>
      \<le> of_nat (length lang_totals) * (1 / 20 + 1 / 2 ^ 45)"
    by (rule sum_list_diff_bound [OF each])
  then show "\<bar>sum_list (map (\<lambda>kv. read_pct (pct_str (pct_value (snd kv) (sum_list (map snd lang_totals)))))
          (sorted_reverse lang_totals)) - 100\<bar>
       \<le> of_nat (length lang_totals) * (1 / 20 + 1 / 2 ^ 45)"
    unfolding sum_list_sorted_reverse T_def exact_percentages_sum [OF T(2) [unfolded T_def]] .
qed

theorem rendered_percentages_sum_witness:
  "distinct (map fst fixture) \<and> list_all (\<lambda>kv. 0 \<le> snd kv) fixture \<and>
   0 < sum_list (map snd fixture) \<and>
   sum_list (map (\<lambda>kv. read_pct (pct_str (pct_value (snd kv) 100))) (sorted_reverse fixture)) = 100 \<and>
   \<bar>sum_list (map (\<lambda>kv. read_pct (pct_str (pct_value (snd kv) 100))) (sorted_reverse fixture))
      - 100\<bar> \<le> of_nat (length fixture) * (1 / 20 + 1 / 2 ^ 45)"
proof -
  have n: "\<forall>kv\<in>set fixture. 0 \<le> snd kv" using fixture_facts(2) by (simp add: list_all_iff)
  have p: "0 < sum_list (map snd fixture)" by (simp add: fixture_facts)
  have v: "sum_list (map (\<lambda>kv. read_pct (pct_str (pct_value (snd kv) 100)))
      (sorted_reverse fixture)) = 100"
    by (simp add: fixture_facts rendered_75 rendered_25 read_75 read_25)
  from rendered_percentages_sum [OF fixture_facts(1) n p] fixture_facts(1,2) p v
  show ?thesis by (simp add: fixture_facts(3))
qed

section \<open>The recent-activity fetcher returns a prefix of the push commits\<close>

lemma take_prefix: "n \<le> length xs \<Longrightarrow> take n (xs @ ys) = take n xs"
  by simp

lemma scan_commits_eq:
  "scan_commits rn cs commits limit =
     (if cs = [] then (commits, False)
      else if int (length commits) < limit
      then (if limit \<le> int (length (commits @ map (commit_of rn) cs))
            then (take (nat limit) (commits @ map (commit_of rn) cs), True)
            else (commits @ map (commit_of rn) cs, False))
      else (commits @ [commit_of rn (hd cs)], True))"
proof (induction cs arbitrary: commits)
  case Nil
  show ?case by simp
next
  case (Cons c cs)
  show ?case
  proof (cases "limit \<le> int (length commits) + 1")
    case True
    show ?thesis
    proof (cases "int (length commits) < limit")
      case lt: True
      with True have "nat limit = Suc (length commits)" by linarith
      then show ?thesis using True lt by (simp add: Let_def)
    next
      case False
      then show ?thesis using True by (simp add: Let_def)
    qed
  next
    case False
    then have "int (length (commits @ [commit_of rn c])) < limit" by simp
    with False show ?thesis
      by (simp add: Let_def Cons.IH [of "commits @ [commit_of rn c]"])
  qed
qed

lemma scan_events_eq:
  "scan_events evs commits limit =
     (if int (length commits) < limit then take (nat limit) (commits @ push_commits evs)
      else commits @ take 1 (push_commits evs))"
proof (induction evs arbitrary: commits)
  case Nil
  show ?case by (simp add: push_commits_def)
next
  case (Cons ev evs)
  show ?case
  proof (cases "is_push ev")
    case False
    then show ?thesis by (simp add: Cons.IH push_commits_def)
  next
    case True
    define rn where "rn = dict_get (ev_repo ev) (asc ''name'') PNone"
    define new where "new = map (commit_of rn) (ev_commits ev)"
    have pc: "push_commits (ev # evs) = new @ push_commits evs"
      using True by (simp add: push_commits_def rn_def new_def)
    have step: "scan_events (ev # evs) commits limit =
        (case scan_commits rn (ev_commits ev) commits limit of
           (commits', True) \<Rightarrow> commits'
         | (commits', False) \<Rightarrow> scan_events evs commits' limit)"
      using True by (simp add: rn_def Let_def)
    show ?thesis
    proof (cases "ev_commits ev = []")
      case e: True
      then show ?thesis by (simp add: step pc new_def Cons.IH)
    next
      case ne: False
      then have hd: "take 1 (new @ push_commits evs) = [commit_of rn (hd (ev_commits ev))]"
        by (cases "ev_commits ev") (simp_all add: new_def)
      show ?thesis
      proof (cases "int (length commits) < limit")
        case False
        then show ?thesis using ne unfolding step pc hd
          by (simp add: scan_commits_eq rn_def del: scan_events.simps take_append)
      next
        case lt: True
        show ?thesis
        proof (cases "limit \<le> int (length (commits @ new))")
          case True
          then have "nat limit \<le> length (commits @ new)" by linarith
          then have "take (nat limit) ((commits @ new) @ push_commits evs)
              = take (nat limit) (commits @ new)"
            by (rule take_prefix)
          then show ?thesis using ne lt True unfolding step pc
            by (simp add: scan_commits_eq new_def [symmetric] del: scan_events.simps take_append)
        next
          case False
          then have "int (length (commits @ new)) < limit" by simp
          then show ?thesis using ne lt False unfolding step pc
            by (simp add: scan_commits_eq new_def [symmetric] Cons.IH
                del: scan_events.simps take_append)
        qed
      qed
    qed
  qed
qed

lemma fetch_recent_commits_eq:
  "fetch_recent_commits api username limit =
     (case events_of api (events_url username) of
        Inl e \<Rightarrow> []
      | Inr events \<Rightarrow> take (max 1 (nat limit)) (push_commits events))"
proof (cases "0 < limit")
  case True
  then have "max 1 (nat limit) = nat limit" by simp
  with True show ?thesis
    by (simp add: fetch_recent_commits_def scan_events_eq split: sum.splits)
next
  case False
  then have "max 1 (nat limit) = 1" by simp
  with False show ?thesis
    by (simp add: fetch_recent_commits_def scan_events_eq split: sum.splits)
qed


text \<open>
  With a limit of 5 the fetcher returns five references from that feed: both commits of
  the first two push events and the first commit of the third.
\<close>

lemma fetch_recent_commits_three_by_two:
  "map cr_url (fetch_recent_commits feed_three (asc ''u'') 5) =
     [asc ''https://github.com/o/a/commit/1'', asc ''https://github.com/o/a/commit/2'',
      asc ''https://github.com/o/b/commit/3'', asc ''https://github.com/o/b/commit/4'',
      asc ''https://github.com/o/c/commit/5'']"
  by (simp add: fetch_recent_commits_def feed_three_def push_of_def is_push_def commit_of_def
      dict_get_def Let_def asc_def)

text \<open>
  C3. The fetcher is to return at most \<open>N\<close> references for every limit \<open>N\<close>. It tests the
  limit after it has appended a reference, so with a limit of 0 and a feed of one push
  event that holds one commit it returns that one reference.
\<close>

theorem fetch_recent_commits_limit_zero:
  "fetch_recent_commits feed_one (asc ''u'') 0 =
     [\<lparr>cr_repo = PStr (asc ''o/r''), cr_message = PStr (asc ''fix''),
       cr_url = asc ''https://github.com/o/r/commit/abc''\<rparr>]"
  by (simp add: fetch_recent_commits_def feed_one_def is_push_def commit_of_def dict_get_def
      Let_def asc_def)

section \<open>The language aggregator sums the contributions\<close>

lemma map_of_dict_set: "map_of (dict_set t k v) = (map_of t)(k \<mapsto> v)"
  by (induction t) (auto simp: fun_eq_iff)

lemma dict_lookup_dict_set:
  "dict_lookup (dict_set t k v) k' = (if k' = k then v else dict_lookup t k')"
  by (simp add: dict_lookup_def map_of_dict_set)

lemma dict_lookup_totals_add:
  "dict_lookup (totals_add t kv) k = dict_lookup t k + (if fst kv = k then snd kv else 0)"
  by (auto simp: totals_add_def dict_lookup_dict_set)

lemma dict_lookup_foldl:
  "dict_lookup (foldl totals_add t data) k = dict_lookup t k + bytes_of data k"
  by (induction data arbitrary: t) (auto simp: bytes_of_def dict_lookup_totals_add)

lemma languages_loop_step:
  "languages_loop api t (r # rs) = languages_loop api (foldl totals_add t (contribution api r)) rs"
  by (simp add: contribution_def Let_def split: sum.splits)

lemma languages_loop_append:
  "languages_loop api t (xs @ ys) = languages_loop api (languages_loop api t xs) ys"
proof (induction xs arbitrary: t)
  case Nil
  show ?case by simp
next
  case (Cons r xs)
  show ?case unfolding append_Cons languages_loop_step by (rule Cons.IH)
qed

lemma languages_loop_skip:
  assumes "contribution api r = []"
  shows "fetch_languages_for_repos api (pre @ r # post) = fetch_languages_for_repos api (pre @ post)"
  unfolding fetch_languages_for_repos_def languages_loop_append languages_loop_step
  by (simp add: assms)

lemma languages_loop_lookup:
  "dict_lookup (languages_loop api t repos) lang
     = dict_lookup t lang + sum_list (map (\<lambda>r. bytes_of (contribution api r) lang) repos)"
proof (induction repos arbitrary: t)
  case Nil
  show ?case by simp
next
  case (Cons r repos)
  show ?case unfolding languages_loop_step Cons.IH by (simp add: dict_lookup_foldl)
qed


text \<open>
  C8. A repository flagged as a fork adds nothing to the totals, and neither does one
  whose language fetch fails: the totals are those of the other repositories, and the
  aggregator returns them (it has no failing branch). The byte count of a language in the
  result is the sum of its byte counts over the repositories that contribute.
\<close>

theorem fetch_languages_skips_forks_and_failures:
  "(truthy (dict_get r (asc ''fork'') PNone) \<longrightarrow>
      fetch_languages_for_repos api (pre @ r # post) = fetch_languages_for_repos api (pre @ post)) \<and>
   (\<forall>e. gh_get_languages api (dict_get r (asc ''languages_url'') PNone) = Inl e \<longrightarrow>
      fetch_languages_for_repos api (pre @ r # post) = fetch_languages_for_repos api (pre @ post)) \<and>
   dict_lookup (fetch_languages_for_repos api repos) lang
     = sum_list (map (\<lambda>r. bytes_of (contribution api r) lang) repos)"
proof (intro conjI impI allI)
  assume "truthy (dict_get r (asc ''fork'') PNone)"
  then have "contribution api r = []" by (simp add: contribution_def)
  then show "fetch_languages_for_repos api (pre @ r # post)
      = fetch_languages_for_repos api (pre @ post)"
    by (rule languages_loop_skip)
next
  fix e assume "gh_get_languages api (dict_get r (asc ''languages_url'') PNone) = Inl e"
  then have "contribution api r = []" by (simp add: contribution_def)
  then show "fetch_languages_for_repos api (pre @ r # post)
      = fetch_languages_for_repos api (pre @ post)"
    by (rule languages_loop_skip)
next
  show "dict_lookup (fetch_languages_for_repos api repos) lang
     = sum_list (map (\<lambda>r. bytes_of (contribution api r) lang) repos)"
    unfolding fetch_languages_for_repos_def languages_loop_lookup
    by (simp add: dict_lookup_def)
qed

lemma fetch_languages_own_repo:
  "fetch_languages_for_repos two_repos [own_repo] = [(asc ''Python'', 300), (asc ''C'', 20)]"
  by (simp add: fetch_languages_for_repos_def two_repos_def own_repo_def dict_get_def
      gh_get_languages_def totals_add_def dict_lookup_def asc_def)

theorem fetch_languages_skips_forks_and_failures_witness:
  "truthy (dict_get fork_repo (asc ''fork'') PNone) \<and>
   gh_get_languages two_repos (dict_get bad_repo (asc ''languages_url'') PNone)
     = Inl RequestException \<and>
   fetch_languages_for_repos two_repos [fork_repo, own_repo]
     = [(asc ''Python'', 300), (asc ''C'', 20)] \<and>
   fetch_languages_for_repos two_repos [bad_repo, own_repo]
     = [(asc ''Python'', 300), (asc ''C'', 20)] \<and>
   dict_lookup (fetch_languages_for_repos two_repos [own_repo, fork_repo, own_repo]) (asc ''C'')
     = 40"
proof -
  have f: "truthy (dict_get fork_repo (asc ''fork'') PNone)"
    by (simp add: fork_repo_def dict_get_def asc_def)
  have b: "gh_get_languages two_repos (dict_get bad_repo (asc ''languages_url'') PNone)
      = Inl RequestException"
    by (simp add: bad_repo_def two_repos_def gh_get_languages_def dict_get_def asc_def)
  have c: "sum_list (map (\<lambda>r. bytes_of (contribution two_repos r) (asc ''C''))
      [own_repo, fork_repo, own_repo]) = 40"
    by (simp add: bytes_of_def contribution_def own_repo_def fork_repo_def two_repos_def
        gh_get_languages_def dict_get_def asc_def)
  from f b c fetch_languages_own_repo
    fetch_languages_skips_forks_and_failures [of fork_repo two_repos "[]" "[own_repo]"]
    fetch_languages_skips_forks_and_failures [of bad_repo two_repos "[]" "[own_repo]"
      "[own_repo, fork_repo, own_repo]" "asc ''C''"]
  show ?thesis by simp
qed

text \<open>
  C10. A repository whose record has no languages URL, or an empty one, adds nothing to
  the totals either, fork or not.
\<close>

theorem fetch_languages_skips_missing_url:
  "\<not> truthy (dict_get r (asc ''languages_url'') PNone) \<Longrightarrow>
     fetch_languages_for_repos api (pre @ r # post) = fetch_languages_for_repos api (pre @ post)"
proof -
  assume "\<not> truthy (dict_get r (asc ''languages_url'') PNone)"
  then have "contribution api r = []" by (simp add: contribution_def)
  then show ?thesis by (rule languages_loop_skip)
qed

theorem fetch_languages_skips_missing_url_witness:
  "\<not> truthy (dict_get bare_repo (asc ''fork'') PNone) \<and>
   \<not> truthy (dict_get bare_repo (asc ''languages_url'') PNone) \<and>
   \<not> truthy (dict_get Map.empty (asc ''languages_url'') PNone) \<and>
   fetch_languages_for_repos two_repos [own_repo, bare_repo]
     = fetch_languages_for_repos two_repos [own_repo] \<and>
   fetch_languages_for_repos two_repos [Map.empty, own_repo]
     = fetch_languages_for_repos two_repos [own_repo]"
proof -
  have a: "\<not> truthy (dict_get bare_repo (asc ''languages_url'') PNone)"
    and b: "\<not> truthy (dict_get Map.empty (asc ''languages_url'') PNone)"
    and c: "\<not> truthy (dict_get bare_repo (asc ''fork'') PNone)"
    by (simp_all add: bare_repo_def dict_get_def asc_def)
  from a b c
    fetch_languages_skips_missing_url [OF a, of two_repos "[own_repo]" "[]"]
    fetch_languages_skips_missing_url [OF b, of two_repos "[]" "[own_repo]"]
  show ?thesis by simp
qed

section \<open>The document builder\<close>

lemma readme_cfg_linkedin:
  "dict_get (readme_cfg cfg username visitor_badge gif_url) (asc ''linkedin_url'') dflt
     = dict_get cfg (asc ''linkedin_url'') PNone"
  by (simp add: readme_cfg_def dict_get_def asc_def)

text \<open>
  C1. The builder is to return a document for every input, the optional fields absent or
  null. \<open>main\<close> passes the key \<open>linkedin_url\<close> with the value \<open>None\<close> when the user's
  configuration does not set it (or sets it to null), so the default of
  \<open>cfg.get("linkedin_url", "")\<close> does not apply and \<open>.strip()\<close> raises \<open>AttributeError\<close>: the
  builder returns no document, whatever the other inputs are.
\<close>

theorem build_readme_fails_without_linkedin:
  "dict_get cfg (asc ''linkedin_url'') PNone = PNone \<Longrightarrow>
     build_readme (readme_cfg cfg username visitor_badge gif_url)
       stats_img_urls lang_section_md recent_commits last_updated = Inl AttributeError"
  by (simp add: build_readme_def readme_cfg_linkedin)

theorem build_readme_fails_without_linkedin_witness:
  "dict_get plain_cfg (asc ''linkedin_url'') PNone = PNone \<and>
   build_readme (readme_cfg plain_cfg (asc ''octo'') (asc ''https://b.dg/e'') [])
       Map.empty (asc ''No language data available.'' @ [10]) [] (asc ''2024-01-01 00:00:00'')
     = Inl AttributeError"
proof -
  have a: "dict_get plain_cfg (asc ''linkedin_url'') PNone = PNone"
    by (simp add: plain_cfg_def dict_get_def asc_def)
  from a build_readme_fails_without_linkedin [OF a] show ?thesis by simp
qed

text \<open>
  When the LinkedIn value is a string (or the key is absent) and the bio is a string or
  empty, the builder returns the sections in their fixed order.
\<close>

lemma build_readme_sections:
  assumes "strip (dict_get cfg (asc ''linkedin_url'') (PStr [])) = Inr linkedin"
    and "bio_lines cfg = Inr bio"
  shows "build_readme cfg stats_img_urls lang_section_md recent_commits last_updated =
     Inr (join NL
       (title_lines cfg @ image_lines cfg @ bio @ badge_lines cfg stats_img_urls linkedin @
        language_lines lang_section_md @ activity_lines recent_commits @
        footer_lines last_updated))"
  using assms by (simp add: build_readme_def)

text \<open>
  When the request for the event feed fails, the fetcher returns the empty list, and the
  builder, given that list and a configuration on which it does not raise, puts the line
  \<open>_No public commits found yet - start committing!_\<close> (with the dash U+2014) right after
  the heading of the activity section.
\<close>

lemma failed_feed_renders_placeholder:
  assumes "events_of api (events_url username) = Inl e"
    and "strip (dict_get cfg (asc ''linkedin_url'') (PStr [])) = Inr linkedin"
    and "bio_lines cfg = Inr bio"
  shows "fetch_recent_commits api username limit = [] \<and>
     build_readme cfg stats_img_urls lang_section_md
         (fetch_recent_commits api username limit) last_updated =
       Inr (join NL
         (title_lines cfg @ image_lines cfg @ bio @ badge_lines cfg stats_img_urls linkedin @
          language_lines lang_section_md @
          [asc ''## Recent activity'' @ NL,
           asc ''_No public commits found yet '' @ [8212] @ asc '' start committing!_'' @ NL] @
          footer_lines last_updated))"
proof -
  have empty: "fetch_recent_commits api username limit = []"
    using assms(1) by (simp add: fetch_recent_commits_def)
  show ?thesis
    unfolding empty build_readme_sections [OF assms(2,3)]
    by (simp add: activity_lines_def NO_COMMITS_def EM_DASH_def)
qed

lemma failed_feed_renders_placeholder_example:
  "events_of two_repos (events_url (asc ''octo'')) = Inl RequestException \<and>
   strip (dict_get (readme_cfg linked_cfg (asc ''octo'') (asc ''B'') []) (asc ''linkedin_url'')
     (PStr [])) = Inr (asc ''https://l.in/octo'') \<and>
   bio_lines (readme_cfg linked_cfg (asc ''octo'') (asc ''B'') []) = Inr [] \<and>
   fetch_recent_commits two_repos (asc ''octo'') 5 = [] \<and>
   build_readme (readme_cfg linked_cfg (asc ''octo'') (asc ''B'') []) Map.empty (asc ''L'')
       (fetch_recent_commits two_repos (asc ''octo'') 5) (asc ''T'') =
     Inr (join NL
       (title_lines (readme_cfg linked_cfg (asc ''octo'') (asc ''B'') []) @
        image_lines (readme_cfg linked_cfg (asc ''octo'') (asc ''B'') []) @ [] @
        badge_lines (readme_cfg linked_cfg (asc ''octo'') (asc ''B'') []) Map.empty
          (asc ''https://l.in/octo'') @
        language_lines (asc ''L'') @
        [asc ''## Recent activity'' @ NL,
         asc ''_No public commits found yet '' @ [8212] @ asc '' start committing!_'' @ NL] @
        footer_lines (asc ''T'')))"
proof -
  have a: "events_of two_repos (events_url (asc ''octo'')) = Inl RequestException"
    by (simp add: two_repos_def)
  have b: "strip (dict_get (readme_cfg linked_cfg (asc ''octo'') (asc ''B'') [])
      (asc ''linkedin_url'') (PStr [])) = Inr (asc ''https://l.in/octo'')"
    unfolding readme_cfg_linkedin
    by (simp add: linked_cfg_def dict_get_def asc_def str_strip_def isspace_def)
  have c: "bio_lines (readme_cfg linked_cfg (asc ''octo'') (asc ''B'') []) = Inr []"
    by (simp add: bio_lines_def readme_cfg_def linked_cfg_def dict_get_def asc_def)
  from a b c
    failed_feed_renders_placeholder [OF a b c, where limit = 5 and stats_img_urls = Map.empty
      and lang_section_md = "asc ''L''" and last_updated = "asc ''T''"]
  show ?thesis by (elim conjE, intro conjI) assumption+
qed

text \<open>
  C9. After a failed request for the event feed the fetcher returns the empty list, and
  the builder is to render the placeholder for it. On the configuration \<open>main\<close> builds
  when the user sets no LinkedIn URL, the builder raises \<open>AttributeError\<close> instead (the
  defect of C1): no placeholder is rendered.
\<close>

theorem failed_feed_then_no_document:
  "events_of two_repos (events_url (asc ''octo'')) = Inl RequestException \<and>
   fetch_recent_commits two_repos (asc ''octo'') 5 = [] \<and>
   build_readme (readme_cfg plain_cfg (asc ''octo'') (asc ''B'') []) Map.empty (asc ''L'')
       (fetch_recent_commits two_repos (asc ''octo'') 5) (asc ''T'') = Inl AttributeError"
proof -
  have a: "events_of two_repos (events_url (asc ''octo'')) = Inl RequestException"
    by (simp add: two_repos_def)
  then have b: "fetch_recent_commits two_repos (asc ''octo'') 5 = []"
    by (simp add: fetch_recent_commits_def)
  have "dict_get plain_cfg (asc ''linkedin_url'') PNone = PNone"
    by (simp add: plain_cfg_def dict_get_def asc_def)
  then have c: "build_readme (readme_cfg plain_cfg (asc ''octo'') (asc ''B'') []) Map.empty
      (asc ''L'') [] (asc ''T'') = Inl AttributeError"
    by (simp add: build_readme_def readme_cfg_linkedin)
  from a b c show ?thesis by simp
qed

section \<open>The image URL resolver\<close>

text \<open>
  C4, against the claim as it is written: an external URL that is configured with a space
  on each side is returned without the spaces, not verbatim.
\<close>

theorem find_gif_url_not_verbatim:
  "dict_get padded_cfg (asc ''external_gif_url'') (PStr []) = PStr (asc '' http://e.x/a.gif '') \<and>
   find_gif_url (asc ''.'') (\<lambda>p. False) padded_cfg (asc ''u'') = Inr (asc ''http://e.x/a.gif'') \<and>
   asc ''http://e.x/a.gif'' \<noteq> asc '' http://e.x/a.gif ''"
  by (simp add: find_gif_url_def padded_cfg_def dict_get_def asc_def str_strip_def isspace_def)

lemma str_strip_unpadded:
  assumes "s \<noteq> []" "\<not> isspace (hd s)" "\<not> isspace (last s)"
  shows "str_strip s = s"
proof -
  from assms have a: "dropWhile isspace s = s" by (cases s) auto
  from assms have "rev s \<noteq> []" "\<not> isspace (hd (rev s))" by (simp_all add: hd_rev)
  then have "dropWhile isspace (rev s) = rev s" by (cases "rev s") auto
  with a show ?thesis by (simp add: str_strip_def)
qed

text \<open>
  C4, amended. When the three settings are strings or absent, so that \<open>.strip()\<close> returns
  (\<open>external\<close>, \<open>gif_path\<close> and \<open>b\<close> are the settings with the white space at their ends
  removed, Unicode white space included, the branch \<open>Main\<close> when absent): the resolver returns the external URL when it
  is not empty; else the empty string when the path is empty; else, when a file exists
  at the path joined to the project root, the path with every backslash replaced by a
  slash; else the raw-content URL built from the user name, the user name again as the
  repository, the branch (\<open>Main\<close> when it is blank) and the path.
\<close>

theorem find_gif_url_priority:
  assumes "strip (dict_get cfg (asc ''external_gif_url'') (PStr [])) = Inr external"
    and "strip (dict_get cfg (asc ''gif_path'') (PStr [])) = Inr gif_path"
    and "strip (dict_get cfg (asc ''branch_name'') (PStr (asc ''Main''))) = Inr b"
  shows "find_gif_url ROOT exists cfg username =
     Inr (if external \<noteq> [] then external
          else if gif_path = [] then []
          else if exists (path_join ROOT gif_path) then slashes gif_path
          else asc ''https://raw.githubusercontent.com/'' @ username @ asc ''/'' @ username @
                 asc ''/'' @ (if b = [] then asc ''Main'' else b) @ asc ''/'' @ gif_path)"
  using assms by (simp add: find_gif_url_def Let_def)

theorem find_gif_url_priority_witness:
  "strip (dict_get path_cfg (asc ''external_gif_url'') (PStr [])) = Inr [] \<and>
   strip (dict_get path_cfg (asc ''gif_path'') (PStr [])) = Inr (asc ''img'' @ [92] @ asc ''a.gif'') \<and>
   strip (dict_get path_cfg (asc ''branch_name'') (PStr (asc ''Main''))) = Inr [] \<and>
   find_gif_url (asc ''.'') (\<lambda>p. p = asc ''./img'' @ [92] @ asc ''a.gif'') path_cfg (asc ''u'')
     = Inr (asc ''img/a.gif'') \<and>
   find_gif_url (asc ''.'') (\<lambda>p. False) path_cfg (asc ''u'')
     = Inr (asc ''https://raw.githubusercontent.com/u/u/Main/img'' @ [92] @ asc ''a.gif'') \<and>
   find_gif_url (asc ''.'') (\<lambda>p. True) Map.empty (asc ''u'') = Inr [] \<and>
   strip (dict_get nbsp_cfg (asc ''external_gif_url'') (PStr [])) = Inr [] \<and>
   find_gif_url (asc ''.'') (\<lambda>p. False) nbsp_cfg (asc ''u'')
     = Inr (asc ''https://raw.githubusercontent.com/u/u/Main/a.gif'')"
proof -
  have a: "strip (dict_get path_cfg (asc ''external_gif_url'') (PStr [])) = Inr []"
    and b: "strip (dict_get path_cfg (asc ''gif_path'') (PStr []))
      = Inr (asc ''img'' @ [92] @ asc ''a.gif'')"
    and c: "strip (dict_get path_cfg (asc ''branch_name'') (PStr (asc ''Main''))) = Inr []"
    by (simp_all add: path_cfg_def dict_get_def asc_def str_strip_def isspace_def)
  have d: "strip (dict_get Map.empty (asc ''external_gif_url'') (PStr [])) = Inr []"
    and e: "strip (dict_get Map.empty (asc ''gif_path'') (PStr [])) = Inr []"
    and f: "strip (dict_get Map.empty (asc ''branch_name'') (PStr (asc ''Main'')))
      = Inr (asc ''Main'')"
    by (simp_all add: dict_get_def asc_def str_strip_def isspace_def)
  have g: "strip (dict_get nbsp_cfg (asc ''external_gif_url'') (PStr [])) = Inr []"
    and h: "strip (dict_get nbsp_cfg (asc ''gif_path'') (PStr [])) = Inr (asc ''a.gif'')"
    and i: "strip (dict_get nbsp_cfg (asc ''branch_name'') (PStr (asc ''Main'')))
      = Inr (asc ''Main'')"
    by (simp_all add: nbsp_cfg_def dict_get_def asc_def str_strip_def isspace_def)
  from a b c g
    find_gif_url_priority [OF a b c, of "asc ''.''" "\<lambda>p. p = asc ''./img'' @ [92] @ asc ''a.gif''"
      "asc ''u''"]
    find_gif_url_priority [OF a b c, of "asc ''.''" "\<lambda>p. False" "asc ''u''"]
    find_gif_url_priority [OF d e f, of "asc ''.''" "\<lambda>p. True" "asc ''u''"]
    find_gif_url_priority [OF g h i, of "asc ''.''" "\<lambda>p. False" "asc ''u''"]
  show ?thesis by (simp add: path_join_def slashes_def asc_def)
qed

end
